theory Spec2Isabelle
  imports Main "HOL-Library.Multiset"
begin

unbundle bit_operations_syntax

section \<open>The flag enumeration\<close>

text \<open>
  \<^verbatim>\<open>class Flags(enum.IntFlag)\<close> of \<^verbatim>\<open>scripts/tes4_pack.py\<close>: four members, each a
  single bit written as a left shift. Iterating the class yields the members in the
  order of their definition.
\<close>

datatype Flags = directory_strings | file_strings | compressed | embedded_file_names

fun flag_value :: "Flags \<Rightarrow> int" where
  "flag_value directory_strings = push_bit 0 1"
| "flag_value file_strings = push_bit 1 1"
| "flag_value compressed = push_bit 2 1"
| "flag_value embedded_file_names = push_bit 8 1"

definition Flags_members :: "Flags list" where
  "Flags_members = [directory_strings, file_strings, compressed, embedded_file_names]"

section \<open>The power set\<close>

text \<open>
  \<^verbatim>\<open>itertools.combinations(s, r)\<close>: the \<open>r\<close>-element subsequences of \<open>s\<close>, in the
  lexicographic order of the positions chosen.
\<close>

fun combinations :: "'a list \<Rightarrow> nat \<Rightarrow> 'a list list" where
  "combinations xs 0 = [[]]"
| "combinations [] (Suc r) = []"
| "combinations (x # xs) (Suc r) = map ((#) x) (combinations xs r) @ combinations xs (Suc r)"

text \<open>
  \<^verbatim>\<open>powerset\<close>: the chain of \<^verbatim>\<open>combinations(s, r)\<close> for \<open>r\<close> in \<^verbatim>\<open>range(len(s)+1)\<close>.
  The Python object returned is a one-shot iterator; the list below is the sequence of
  items that iterator has still to yield when it is fresh.
\<close>

definition powerset :: "'a list \<Rightarrow> 'a list list" where
  "powerset a_iterable =
     (let s = a_iterable in concat (map (\<lambda>r. combinations s r) [0 ..< length s + 1]))"

section \<open>The accumulated flag value\<close>

datatype oserror = FileNotFound | NotADirectory | PermissionDenied | FileExists

datatype error = IndexError | OSError oserror | CalledProcessError int

text \<open>
  \<^verbatim>\<open>itertools.accumulate(iterable, func, initial=i)\<close> yields \<open>i\<close> first and then every
  running result.
\<close>

fun accumulate :: "'a list \<Rightarrow> ('b \<Rightarrow> 'a \<Rightarrow> 'b) \<Rightarrow> 'b \<Rightarrow> 'b list" where
  "accumulate [] func initial = [initial]"
| "accumulate (x # xs) func initial = initial # accumulate xs func (func initial x)"

text \<open>Python's \<^verbatim>\<open>xs[-1]\<close>: the last element, IndexError on an empty list.\<close>

definition index_last :: "'a list \<Rightarrow> error + 'a" where
  "index_last xs = (if xs = [] then Inl IndexError else Inr (last xs))"

text \<open>
  Line 20:
  \<^verbatim>\<open>af = list(itertools.accumulate(combo, lambda sum, elem: sum | elem, initial=0))[-1]\<close>
\<close>

definition accumulated_flags :: "int list \<Rightarrow> error + int" where
  "accumulated_flags combo = index_last (accumulate combo (\<lambda>sum elem. sum OR elem) 0)"

section \<open>Formatting\<close>

text \<open>
  The format specification \<^verbatim>\<open>{:X}\<close> applied to a Python integer: upper-case hexadecimal
  digits, most significant first, no prefix and no padding, a minus sign before the
  digits of the absolute value when the integer is negative.
\<close>

definition hex_digit :: "nat \<Rightarrow> char" where
  "hex_digit d = ''0123456789ABCDEF'' ! d"

fun hex_nat :: "nat \<Rightarrow> string" where
  "hex_nat n = (if n < 16 then [hex_digit n] else hex_nat (n div 16) @ [hex_digit (n mod 16)])"

declare hex_nat.simps [simp del]

definition format_X :: "int \<Rightarrow> string" where
  "format_X i = (if i < 0 then CHR ''-'' # hex_nat (nat (- i)) else hex_nat (nat i))"

text \<open>Line 25: \<^verbatim>\<open>"{}_{:X}.bsa".format(format, af)\<close>.\<close>

definition output_name :: "string \<Rightarrow> int \<Rightarrow> string" where
  "output_name format af = format @ ''_'' @ format_X af @ ''.bsa''"

text \<open>Line 26: \<^verbatim>\<open>"-{}".format(format)\<close>.\<close>

definition format_selector :: "string \<Rightarrow> string" where
  "format_selector format = ''-'' @ format"

text \<open>Line 27: \<^verbatim>\<open>"-af:0x{:X}".format(af)\<close>.\<close>

definition af_selector :: "int \<Rightarrow> string" where
  "af_selector af = ''-af:0x'' @ format_X af"

text \<open>
  Reading a string of hexadecimal digits back, most significant digit first: the
  meaning of a rendering, against which \<open>format_X\<close> is checked.
\<close>

definition digit_value :: "char \<Rightarrow> nat" where
  "digit_value c = (if c = CHR ''A'' then 10 else if c = CHR ''B'' then 11
     else if c = CHR ''C'' then 12 else if c = CHR ''D'' then 13
     else if c = CHR ''E'' then 14 else if c = CHR ''F'' then 15
     else of_char c - 48)"

definition hex_value :: "string \<Rightarrow> nat" where
  "hex_value s = foldl (\<lambda>acc c. 16 * acc + digit_value c) 0 s"

section \<open>The process and its environment\<close>

text \<open>
  What the script touches outside itself: the current working directory, the file
  system (which paths exist, and as what), and the external archiver. \<open>denied\<close> holds
  the paths the process may neither enter nor create. \<open>calls\<close> is the log of the
  external invocations attempted so far, each with the working directory it was
  started in and its argument vector.
\<close>

datatype node = File | Dir

record world =
  cwd :: string
  nodes :: "string \<rightharpoonup> node"
  denied :: "string set"
  calls :: "(string \<times> string list) list"

text \<open>
  The outcome of starting the external program: it ran and exited with a return code, or
  it could not be started at all (\<^verbatim>\<open>Popen\<close> raises an \<^verbatim>\<open>OSError\<close>, for instance
  \<^verbatim>\<open>FileNotFoundError\<close> when the path does not resolve to an executable).
\<close>

datatype outcome = Exited int | NotStarted oserror

text \<open>
  The archiver is outside the repository: its behaviour is a parameter, a function of
  the number of invocations made before, the working directory and the argument vector.
\<close>

type_synonym archiver = "nat \<Rightarrow> string \<Rightarrow> string list \<Rightarrow> outcome"

text \<open>The parsed command line: \<^verbatim>\<open>a_args.bsarch\<close> and \<^verbatim>\<open>a_args.directory\<close>.\<close>

record args =
  bsarch :: string
  directory :: string

text \<open>\<^verbatim>\<open>os.path.join\<close> of a directory and a relative name.\<close>

definition path_join :: "string \<Rightarrow> string \<Rightarrow> string" where
  "path_join d name = (if d = [] then name
     else if last d = CHR ''/'' then d @ name else d @ ''/'' @ name)"

definition abspath :: "world \<Rightarrow> string \<Rightarrow> string" where
  "abspath w p = (case p of [] \<Rightarrow> path_join (cwd w) p
     | c # _ \<Rightarrow> if c = CHR ''/'' then p else path_join (cwd w) p)"

definition isdir :: "string \<Rightarrow> world \<Rightarrow> bool" where
  "isdir p w = (nodes w (abspath w p) = Some Dir)"

text \<open>\<^verbatim>\<open>os.chdir\<close>.\<close>

definition chdir :: "string \<Rightarrow> world \<Rightarrow> error option \<times> world" where
  "chdir p w =
     (let q = abspath w p in
      case nodes w q of
        None \<Rightarrow> (Some (OSError FileNotFound), w)
      | Some File \<Rightarrow> (Some (OSError NotADirectory), w)
      | Some Dir \<Rightarrow>
          if q \<in> denied w then (Some (OSError PermissionDenied), w)
          else (None, w\<lparr>cwd := q\<rparr>))"

text \<open>\<^verbatim>\<open>os.mkdir\<close>.\<close>

definition mkdir :: "string \<Rightarrow> world \<Rightarrow> error option \<times> world" where
  "mkdir p w =
     (let q = abspath w p in
      case nodes w q of
        Some n \<Rightarrow> (Some (OSError FileExists), w)
      | None \<Rightarrow>
          if q \<in> denied w then (Some (OSError PermissionDenied), w)
          else (None, w\<lparr>nodes := (nodes w)(q \<mapsto> Dir)\<rparr>))"

text \<open>
  \<^verbatim>\<open>os.makedirs(name, exist_ok=...)\<close> for a name of one component, as the script calls it
  (\<^verbatim>\<open>"bin"\<close>): there is no parent to create first, so what is left is
  \<^verbatim>\<open>try: mkdir(name)  except OSError: if not exist_ok or not path.isdir(name): raise\<close>.
\<close>

definition makedirs :: "string \<Rightarrow> bool \<Rightarrow> world \<Rightarrow> error option \<times> world" where
  "makedirs name exist_ok w =
     (case mkdir name w of
        (None, w') \<Rightarrow> (None, w')
      | (Some e, w') \<Rightarrow> if exist_ok \<and> isdir name w' then (None, w') else (Some e, w'))"

text \<open>
  \<^verbatim>\<open>subprocess.run(argv, check=True)\<close>: the child inherits the working directory; the
  call blocks until the child exits; a return code other than zero raises
  \<^verbatim>\<open>CalledProcessError\<close>. The child cannot change the working directory of the script.
\<close>

definition subprocess_run :: "archiver \<Rightarrow> string list \<Rightarrow> world \<Rightarrow> error option \<times> world" where
  "subprocess_run ar argv w =
     (let w' = w\<lparr>calls := calls w @ [(cwd w, argv)]\<rparr> in
      case ar (length (calls w)) (cwd w) argv of
        NotStarted e \<Rightarrow> (Some (OSError e), w')
      | Exited returncode \<Rightarrow>
          if returncode = 0 then (None, w') else (Some (CalledProcessError returncode), w'))"

section \<open>The enumeration of the jobs\<close>

text \<open>The body of the inner loop, lines 20 to 29.\<close>

definition job :: "args \<Rightarrow> archiver \<Rightarrow> string \<Rightarrow> int list \<Rightarrow> world \<Rightarrow> error option \<times> world" where
  "job a_args ar format combo w =
     (case accumulated_flags combo of
        Inl e \<Rightarrow> (Some e, w)
      | Inr af \<Rightarrow>
          subprocess_run ar
            [bsarch a_args,
             ''pack'',
             directory a_args,
             output_name format af,
             format_selector format,
             af_selector af] w)"

text \<open>
  \<^verbatim>\<open>for combo in combinations\<close>: \<open>combinations\<close> is the iterator made once on line 16, and
  the loop takes items from it until it is exhausted or the body raises. The function
  takes the items the iterator has left and returns, with the result, the items it has
  left afterwards.
\<close>

fun for_combo ::
  "args \<Rightarrow> archiver \<Rightarrow> string \<Rightarrow> int list list \<Rightarrow> world \<Rightarrow> error option \<times> int list list \<times> world"
where
  "for_combo a_args ar format [] w = (None, [], w)"
| "for_combo a_args ar format (combo # it) w =
     (case job a_args ar format combo w of
        (Some e, w') \<Rightarrow> (Some e, it, w')
      | (None, w') \<Rightarrow> for_combo a_args ar format it w')"

text \<open>\<^verbatim>\<open>for format in formats\<close>: every pass runs the inner loop on the same iterator.\<close>

fun for_format ::
  "args \<Rightarrow> archiver \<Rightarrow> string list \<Rightarrow> int list list \<Rightarrow> world \<Rightarrow> error option \<times> int list list \<times> world"
where
  "for_format a_args ar [] it w = (None, it, w)"
| "for_format a_args ar (format # formats) it w =
     (case for_combo a_args ar format it w of
        (Some e, it', w') \<Rightarrow> (Some e, it', w')
      | (None, it', w') \<Rightarrow> for_format a_args ar formats it' w')"

definition formats :: "string list" where
  "formats = [''tes4'', ''tes5'', ''sse'']"

definition combinate :: "args \<Rightarrow> archiver \<Rightarrow> world \<Rightarrow> error option \<times> world" where
  "combinate a_args ar w =
     (let combinations = powerset (map flag_value Flags_members)
      in case for_format a_args ar formats combinations w of (r, it, w') \<Rightarrow> (r, w'))"

text \<open>
  \<^verbatim>\<open>main\<close>, after \<^verbatim>\<open>parse_arguments\<close> has returned \<open>a_args\<close>. \<open>script_dir\<close> stands for
  \<^verbatim>\<open>os.path.dirname(os.path.realpath(__file__))\<close>, an absolute path.
\<close>

definition main :: "args \<Rightarrow> archiver \<Rightarrow> string \<Rightarrow> world \<Rightarrow> error option \<times> world" where
  "main a_args ar script_dir w =
     (case chdir script_dir w of
        (Some e, w1) \<Rightarrow> (Some e, w1)
      | (None, w1) \<Rightarrow>
          (let out = ''bin'' in
           case makedirs out True w1 of
             (Some e, w2) \<Rightarrow> (Some e, w2)
           | (None, w2) \<Rightarrow>
               (case chdir out w2 of
                  (Some e, w3) \<Rightarrow> (Some e, w3)
                | (None, w3) \<Rightarrow> combinate a_args ar w3)))"

text \<open>
  The state in which the interpreter starts the script: some working directory, some
  file system, and no invocation made yet.
\<close>

definition start :: "string \<Rightarrow> (string \<rightharpoonup> node) \<Rightarrow> string set \<Rightarrow> world" where
  "start d fs dn = \<lparr>cwd = d, nodes = fs, denied = dn, calls = []\<rparr>"

text \<open>
  The exit status of the interpreter: 0 when \<^verbatim>\<open>main()\<close> returns, 1 when an exception
  leaves it uncaught.
\<close>

definition exit_status :: "error option \<Rightarrow> int" where
  "exit_status r = (case r of None \<Rightarrow> 0 | Some e \<Rightarrow> 1)"

section \<open>Auxiliary notions for the proofs\<close>

text \<open>What \<^verbatim>\<open>subprocess.run(..., check=True)\<close> raises for an outcome of the child, if anything.\<close>

definition raised :: "outcome \<Rightarrow> error option" where
  "raised oc = (case oc of Exited returncode \<Rightarrow>
       if returncode = 0 then None else Some (CalledProcessError returncode)
     | NotStarted e \<Rightarrow> Some (OSError e))"

text \<open>
  The argument vector of the job for a format and a combination, with the accumulated
  flag value written as the fold it is.
\<close>

definition job_argv :: "args \<Rightarrow> string \<Rightarrow> int list \<Rightarrow> string list" where
  "job_argv a fmt combo =
     [bsarch a, ''pack'', directory a, output_name fmt (foldl (OR) 0 combo),
      format_selector fmt, af_selector (foldl (OR) 0 combo)]"

text \<open>Every invocation of a log was answered by a return code of zero.\<close>

definition all_succeeded :: "archiver \<Rightarrow> (string \<times> string list) list \<Rightarrow> bool" where
  "all_succeeded ar cs = (\<forall>i < length cs. ar i (fst (cs ! i)) (snd (cs ! i)) = Exited 0)"

section \<open>Properties of the enumeration and of the formatting\<close>

lemma powerset_flags: "powerset (map flag_value Flags_members) =
  [[], [1], [2], [4], [256], [1,2], [1,4], [1,256], [2,4], [2,256], [4,256],
   [1,2,4], [1,2,256], [1,4,256], [2,4,256], [1,2,4,256]]"
  by (simp add: powerset_def Flags_members_def upt_rec)

lemma accumulate_nonempty: "accumulate xs f i \<noteq> []"
  by (induction xs arbitrary: i) simp_all

lemma last_accumulate: "last (accumulate xs f i) = foldl f i xs"
  by (induction xs arbitrary: i) (simp_all add: accumulate_nonempty)

lemma accumulated_flags_eq: "accumulated_flags combo = Inr (foldl (OR) 0 combo)"
  by (simp add: accumulated_flags_def index_last_def accumulate_nonempty last_accumulate)

lemma bit_foldl_or: "bit (foldl (OR) (a::int) xs) n = (bit a n \<or> (\<exists>x. x \<in> set xs \<and> bit x n))"
  by (induction xs arbitrary: a) (auto simp: bit_or_iff)

lemma subsets_flags: "set ` set (powerset (map flag_value Flags_members)) = Pow {1, 2, 4, 256}"
  unfolding powerset_flags by (auto simp: Pow_insert)

lemma card_flags: "card (Pow {1, 2, 4, 256::int}) = 16"
  by (simp add: card_Pow)

text \<open>
  Claim C2. The power-set enumeration over the four flag values 0x1, 0x2, 0x4 and 0x100
  yields exactly 16 subsets, all distinct (as sequences, as sets and by their accumulated
  values): they are exactly the subsets of the flag set. The empty subset is among them
  and accumulates to 0; the full subset is among them and accumulates to 0x107.
\<close>

theorem powerset_flags_16:
  "length (powerset (map flag_value Flags_members)) = 16
   \<and> distinct (powerset (map flag_value Flags_members))
   \<and> set ` set (powerset (map flag_value Flags_members)) = Pow (set (map flag_value Flags_members))
   \<and> card (set ` set (powerset (map flag_value Flags_members))) = 16
   \<and> distinct (map accumulated_flags (powerset (map flag_value Flags_members)))
   \<and> map flag_value Flags_members = [0x1, 0x2, 0x4, 0x100]
   \<and> [] \<in> set (powerset (map flag_value Flags_members))
   \<and> accumulated_flags [] = Inr 0
   \<and> [0x1, 0x2, 0x4, 0x100] \<in> set (powerset (map flag_value Flags_members))
   \<and> accumulated_flags [0x1, 0x2, 0x4, 0x100] = Inr 0x107"
proof -
  have "length (powerset (map flag_value Flags_members)) = 16"
    by (simp add: powerset_flags)
  moreover have "distinct (powerset (map flag_value Flags_members))"
    by (simp add: powerset_flags)
  moreover have "set ` set (powerset (map flag_value Flags_members)) = Pow (set (map flag_value Flags_members))"
    unfolding subsets_flags by (simp add: Flags_members_def)
  moreover have "card (set ` set (powerset (map flag_value Flags_members))) = 16"
    unfolding subsets_flags by (rule card_flags)
  moreover have "distinct (map accumulated_flags (powerset (map flag_value Flags_members)))"
    by (simp add: powerset_flags accumulated_flags_eq)
  moreover have "map flag_value Flags_members = [0x1, 0x2, 0x4, 0x100]"
    by (simp add: Flags_members_def)
  moreover have "[] \<in> set (powerset (map flag_value Flags_members))"
    by (simp add: powerset_flags)
  moreover have "accumulated_flags [] = Inr 0"
    by (simp add: accumulated_flags_eq)
  moreover have "[0x1, 0x2, 0x4, 0x100] \<in> set (powerset (map flag_value Flags_members))"
    by (simp add: powerset_flags)
  moreover have "accumulated_flags [0x1, 0x2, 0x4, 0x100] = Inr 0x107"
    by (simp add: accumulated_flags_eq)
  ultimately show ?thesis by blast
qed

text \<open>
  Claim C9. The list produced by the accumulation seeded with 0 is never empty, so taking
  its last element raises no IndexError: the accumulated flag value exists for every
  combination, and for the empty combination it is 0.
\<close>

theorem index_last_never_fails:
  "accumulate combo func (0::int) \<noteq> []
   \<and> (\<exists>af. accumulated_flags combo = Inr af)
   \<and> accumulated_flags [] = Inr 0"
  by (simp add: accumulate_nonempty accumulated_flags_eq)

text \<open>
  Claim C3. The accumulation with bitwise OR starting from 0 yields the bitwise OR of
  the values of the combination (a bit is set in the result exactly when it is set in
  some element), and every reordering of the combination accumulates to the same value.
\<close>

theorem accumulated_flags_is_bitwise_or:
  assumes "mset ys = mset combo"
  shows "\<exists>af. accumulated_flags combo = Inr af \<and> accumulated_flags ys = Inr af
           \<and> (\<forall>n. bit af n = (\<exists>x. x \<in> set combo \<and> bit x n))"
proof -
  have s: "set ys = set combo" using assms by (rule mset_eq_setD)
  have "foldl (OR) 0 ys = foldl (OR) (0::int) combo"
    by (rule bit_eqI) (simp add: bit_foldl_or s)
  then show ?thesis
    by (simp add: accumulated_flags_eq bit_foldl_or)
qed

text \<open>
  The theorem at the combination 1, 4, 256 and its reordering 256, 1, 4: both accumulate
  to 0x105.
\<close>

theorem accumulated_flags_is_bitwise_or_witness:
  "mset [256, 1, 4] = mset [1, 4, 256 :: int]
   \<and> accumulated_flags [1, 4, 256] = Inr 261 \<and> accumulated_flags [256, 1, 4] = Inr 261"
proof -
  have h: "mset [256, 1, 4] = mset [1, 4, 256 :: int]" by simp
  obtain af where a: "accumulated_flags [1, 4, 256] = Inr af"
      and b: "accumulated_flags [256, 1, 4] = Inr af"
    using accumulated_flags_is_bitwise_or [OF h] by blast
  have v: "af = 261" using a by (simp add: accumulated_flags_eq)
  show ?thesis using h a b v by simp
qed

lemma hex_digit_table:
  "list_all (\<lambda>d. digit_value (hex_digit d) = d
      \<and> hex_digit d \<in> set ''0123456789ABCDEF''
      \<and> (hex_digit d = CHR ''0'') = (d = 0)) [0 ..< 16]"
  by (simp add: upt_rec digit_value_def hex_digit_def)

lemma hex_digit_props:
  assumes "d < 16"
  shows "digit_value (hex_digit d) = d"
    and "hex_digit d \<in> set ''0123456789ABCDEF''"
    and "(hex_digit d = CHR ''0'') = (d = 0)"
proof -
  have "d \<in> set [0 ..< 16]" using assms by simp
  then have "digit_value (hex_digit d) = d
      \<and> hex_digit d \<in> set ''0123456789ABCDEF''
      \<and> (hex_digit d = CHR ''0'') = (d = 0)"
    using hex_digit_table unfolding list_all_iff by blast
  then show "digit_value (hex_digit d) = d"
    and "hex_digit d \<in> set ''0123456789ABCDEF''"
    and "(hex_digit d = CHR ''0'') = (d = 0)" by blast+
qed

lemma hex_value_snoc: "hex_value (s @ [c]) = 16 * hex_value s + digit_value c"
  by (simp add: hex_value_def)

lemma hex_value_hex_nat: "hex_value (hex_nat n) = n"
proof (induction n rule: hex_nat.induct)
  case (1 n)
  show ?case
  proof (cases "n < 16")
    case True
    then show ?thesis
      using hex_value_snoc [of "[]"] by (subst hex_nat.simps) (simp add: hex_digit_props hex_value_def)
  next
    case False
    then show ?thesis
      using 1 by (subst hex_nat.simps) (simp add: hex_value_snoc hex_digit_props)
  qed
qed

lemma hex_nat_digits_in:
  assumes "\<And>d. d < 16 \<Longrightarrow> hex_digit d \<in> S"
  shows "set (hex_nat n) \<subseteq> S"
proof (induction n rule: hex_nat.induct)
  case (1 n)
  show ?case
  proof (cases "n < 16")
    case True
    then show ?thesis
      using assms [of n] by (subst hex_nat.simps) simp
  next
    case False
    then show ?thesis
      using 1 assms [of "n mod 16"] by (subst hex_nat.simps) simp
  qed
qed

lemma hex_nat_digits: "set (hex_nat n) \<subseteq> set ''0123456789ABCDEF''"
  by (rule hex_nat_digits_in) (rule hex_digit_props)

lemma hex_nat_nonempty: "hex_nat n \<noteq> []"
  by (subst hex_nat.simps) simp

lemma hd_hex_nat: "(hd (hex_nat n) = CHR ''0'') = (n = 0)"
proof (induction n rule: hex_nat.induct)
  case (1 n)
  show ?case
  proof (cases "n < 16")
    case True
    then show ?thesis
      by (subst hex_nat.simps) (simp add: hex_digit_props)
  next
    case False
    then have "n div 16 \<noteq> 0" by simp
    then show ?thesis
      using False 1 by (subst hex_nat.simps) (simp add: hex_nat_nonempty)
  qed
qed

text \<open>
  Claim C4. The output file name is the format, an underscore, the flags in upper-case
  hexadecimal and the suffix \<^verbatim>\<open>.bsa\<close>. For a non-negative flag value the rendering is a
  non-empty string of the digits 0 to 9 and A to F that reads back as the value, and it
  begins with the digit 0 only when the value is 0 (no padding). Format tes5 with flags
  0x107 gives \<^verbatim>\<open>tes5_107.bsa\<close>; flags 0 give the format followed by \<^verbatim>\<open>_0.bsa\<close>.
\<close>

theorem output_name_format:
  "output_name format (int n) = format @ ''_'' @ format_X (int n) @ ''.bsa''
   \<and> format_X (int n) \<noteq> []
   \<and> set (format_X (int n)) \<subseteq> set ''0123456789ABCDEF''
   \<and> hex_value (format_X (int n)) = n
   \<and> (hd (format_X (int n)) = CHR ''0'') = (n = 0)
   \<and> output_name ''tes5'' 0x107 = ''tes5_107.bsa''
   \<and> output_name format 0 = format @ ''_0.bsa''"
proof -
  have f: "format_X (int n) = hex_nat n" by (simp add: format_X_def)
  have "output_name ''tes5'' 0x107 = ''tes5_107.bsa''"
    by (simp add: output_name_def format_X_def hex_nat.simps hex_digit_def)
  moreover have "output_name format 0 = format @ ''_0.bsa''"
    by (simp add: output_name_def format_X_def hex_nat.simps hex_digit_def)
  ultimately show ?thesis
    unfolding f using hex_nat_digits [of n]
    by (simp add: output_name_def f hex_nat_nonempty hex_value_hex_nat hd_hex_nat)
qed

section \<open>The loops\<close>

lemma raised_None: "(raised oc = None) = (oc = Exited 0)"
  by (cases oc) (simp_all add: raised_def)

lemma subprocess_run_eq:
  "subprocess_run ar argv w =
     (raised (ar (length (calls w)) (cwd w) argv), w\<lparr>calls := calls w @ [(cwd w, argv)]\<rparr>)"
  by (simp add: subprocess_run_def raised_def Let_def split: outcome.split)

lemma job_eq:
  "job a ar fmt combo w =
     (raised (ar (length (calls w)) (cwd w) (job_argv a fmt combo)),
      w\<lparr>calls := calls w @ [(cwd w, job_argv a fmt combo)]\<rparr>)"
  by (simp add: job_def accumulated_flags_eq subprocess_run_eq job_argv_def)

lemma for_combo_Cons_raised:
  assumes "raised (ar (length (calls w)) (cwd w) (job_argv a fmt combo)) = Some e"
  shows "for_combo a ar fmt (combo # it) w =
           (Some e, it, w\<lparr>calls := calls w @ [(cwd w, job_argv a fmt combo)]\<rparr>)"
  using assms by (simp add: job_eq)

lemma for_combo_Cons_passed:
  assumes "raised (ar (length (calls w)) (cwd w) (job_argv a fmt combo)) = None"
  shows "for_combo a ar fmt (combo # it) w =
           for_combo a ar fmt it (w\<lparr>calls := calls w @ [(cwd w, job_argv a fmt combo)]\<rparr>)"
  using assms by (simp add: job_eq)

lemma for_combo_world:
  "\<exists>k. k \<le> length it
     \<and> snd (snd (for_combo a ar fmt it w)) =
       w\<lparr>calls := calls w @ map (\<lambda>combo. (cwd w, job_argv a fmt combo)) (take k it)\<rparr>
     \<and> fst (snd (for_combo a ar fmt it w)) = drop k it
     \<and> (fst (for_combo a ar fmt it w) = None \<longrightarrow> k = length it)"
proof (induction it arbitrary: w)
  case Nil
  show ?case by simp
next
  case (Cons combo it)
  let ?w1 = "w\<lparr>calls := calls w @ [(cwd w, job_argv a fmt combo)]\<rparr>"
  show ?case
  proof (cases "raised (ar (length (calls w)) (cwd w) (job_argv a fmt combo))")
    case (Some e)
    have "for_combo a ar fmt (combo # it) w = (Some e, it, ?w1)"
      using Some by (rule for_combo_Cons_raised)
    then have "Suc 0 \<le> length (combo # it)
     \<and> snd (snd (for_combo a ar fmt (combo # it) w)) =
       w\<lparr>calls := calls w @ map (\<lambda>combo. (cwd w, job_argv a fmt combo)) (take (Suc 0) (combo # it))\<rparr>
     \<and> fst (snd (for_combo a ar fmt (combo # it) w)) = drop (Suc 0) (combo # it)
     \<and> (fst (for_combo a ar fmt (combo # it) w) = None \<longrightarrow> Suc 0 = length (combo # it))"
      by simp
    then show ?thesis by (rule exI)
  next
    case None
    have eq: "for_combo a ar fmt (combo # it) w = for_combo a ar fmt it ?w1"
      using None by (rule for_combo_Cons_passed)
    obtain k where k1: "k \<le> length it"
      and k2: "snd (snd (for_combo a ar fmt it ?w1)) =
         ?w1\<lparr>calls := calls ?w1 @ map (\<lambda>combo. (cwd ?w1, job_argv a fmt combo)) (take k it)\<rparr>"
      and k3: "fst (snd (for_combo a ar fmt it ?w1)) = drop k it"
      and k4: "fst (for_combo a ar fmt it ?w1) = None \<longrightarrow> k = length it"
      using Cons.IH [of ?w1] by (elim exE conjE)
    have "Suc k \<le> length (combo # it)" using k1 by simp
    moreover have "snd (snd (for_combo a ar fmt (combo # it) w)) =
       w\<lparr>calls := calls w @ map (\<lambda>combo. (cwd w, job_argv a fmt combo)) (take (Suc k) (combo # it))\<rparr>"
      unfolding eq k2 by simp
    moreover have "fst (snd (for_combo a ar fmt (combo # it) w)) = drop (Suc k) (combo # it)"
      unfolding eq k3 by simp
    moreover have "fst (for_combo a ar fmt (combo # it) w) = None \<longrightarrow> Suc k = length (combo # it)"
      unfolding eq using k4 by simp
    ultimately show ?thesis by (intro exI conjI)
  qed
qed

lemma all_succeeded_snoc:
  assumes "all_succeeded ar cs" and "ar (length cs) (fst c) (snd c) = Exited 0"
  shows "all_succeeded ar (cs @ [c])"
  unfolding all_succeeded_def
proof (intro allI impI)
  fix i assume "i < length (cs @ [c])"
  then consider "i < length cs" | "i = length cs" by fastforce
  then show "ar i (fst ((cs @ [c]) ! i)) (snd ((cs @ [c]) ! i)) = Exited 0"
  proof cases
    case 1
    then show ?thesis using assms(1) by (simp add: all_succeeded_def nth_append)
  next
    case 2
    then show ?thesis using assms(2) by (simp add: nth_append)
  qed
qed

lemma for_combo_invariant:
  assumes "all_succeeded ar (calls w)"
  shows "(fst (for_combo a ar fmt it w) = None
            \<and> all_succeeded ar (calls (snd (snd (for_combo a ar fmt it w)))))
       \<or> (\<exists>cs c. calls (snd (snd (for_combo a ar fmt it w))) = cs @ [c]
            \<and> all_succeeded ar cs
            \<and> fst (for_combo a ar fmt it w) = raised (ar (length cs) (fst c) (snd c))
            \<and> ar (length cs) (fst c) (snd c) \<noteq> Exited 0)"
  using assms
proof (induction it arbitrary: w)
  case Nil
  then show ?case by simp
next
  case (Cons combo it)
  let ?c = "(cwd w, job_argv a fmt combo)"
  let ?w1 = "w\<lparr>calls := calls w @ [?c]\<rparr>"
  show ?case
  proof (cases "raised (ar (length (calls w)) (cwd w) (job_argv a fmt combo))")
    case (Some e)
    have eq: "for_combo a ar fmt (combo # it) w = (Some e, it, ?w1)"
      using Some by (rule for_combo_Cons_raised)
    have ne: "ar (length (calls w)) (fst ?c) (snd ?c) \<noteq> Exited 0"
      using Some raised_None [of "ar (length (calls w)) (cwd w) (job_argv a fmt combo)"] by simp
    have "calls (snd (snd (for_combo a ar fmt (combo # it) w))) = calls w @ [?c]
        \<and> all_succeeded ar (calls w)
        \<and> fst (for_combo a ar fmt (combo # it) w) = raised (ar (length (calls w)) (fst ?c) (snd ?c))
        \<and> ar (length (calls w)) (fst ?c) (snd ?c) \<noteq> Exited 0"
      unfolding eq using Some Cons.prems ne by simp
    then show ?thesis by (intro disjI2 exI)
  next
    case None
    have eq: "for_combo a ar fmt (combo # it) w = for_combo a ar fmt it ?w1"
      using None by (rule for_combo_Cons_passed)
    have "ar (length (calls w)) (fst ?c) (snd ?c) = Exited 0"
      using None by (simp add: raised_None)
    then have "all_succeeded ar (calls w @ [?c])"
      using Cons.prems by (intro all_succeeded_snoc)
    then have "all_succeeded ar (calls ?w1)" by simp
    from Cons.IH [OF this] show ?thesis unfolding eq .
  qed
qed

lemma for_format_exhausted: "for_format a ar fmts [] w = (None, [], w)"
  by (induction fmts) simp_all

lemma for_combo_exhausts:
  assumes "for_combo a ar fmt it w = (None, it', w')"
  shows "it' = []"
proof -
  obtain k where k3: "fst (snd (for_combo a ar fmt it w)) = drop k it"
      and k4: "fst (for_combo a ar fmt it w) = None \<longrightarrow> k = length it"
    using for_combo_world [of it a ar fmt w] by (elim exE conjE)
  show ?thesis using k3 k4 unfolding assms by simp
qed

lemma for_format_first_only:
  "for_format a ar (fmt # fmts) it w = for_combo a ar fmt it w"
proof -
  obtain r it' w' where f: "for_combo a ar fmt it w = (r, it', w')"
    by (rule prod_cases3)
  show ?thesis
  proof (cases r)
    case None
    have "it' = []" using f unfolding None by (rule for_combo_exhausts)
    then show ?thesis using f None by (simp add: for_format_exhausted)
  next
    case (Some e)
    then show ?thesis using f by simp
  qed
qed

lemma combinate_eq:
  "combinate a ar w =
     (fst (for_combo a ar ''tes4'' (powerset (map flag_value Flags_members)) w),
      snd (snd (for_combo a ar ''tes4'' (powerset (map flag_value Flags_members)) w)))"
  unfolding combinate_def formats_def Let_def for_format_first_only
  by (simp add: split_beta)


section \<open>Startup and the run as a whole\<close>

lemma abspath_bin: "abspath w ''bin'' = path_join (cwd w) ''bin''"
  by (simp add: abspath_def)

lemma chdir_cases:
  assumes "chdir p w = (r, w')"
  shows "(\<exists>e. r = Some e \<and> w' = w)
       \<or> (r = None \<and> w' = w\<lparr>cwd := abspath w p\<rparr> \<and> nodes w (abspath w p) = Some Dir)"
  using assms
  by (auto simp: chdir_def Let_def split: option.splits node.splits if_splits)

lemma makedirs_cases:
  assumes "makedirs name True w = (r, w')"
  shows "(\<exists>e. r = Some e \<and> w' = w)
       \<or> (r = None \<and> nodes w (abspath w name) = Some Dir \<and> w' = w)
       \<or> (r = None \<and> nodes w (abspath w name) = None
            \<and> w' = w\<lparr>nodes := (nodes w)(abspath w name \<mapsto> Dir)\<rparr>)"
  using assms
  by (auto simp: makedirs_def mkdir_def isdir_def Let_def split: option.splits if_splits)

lemma main_cases:
  assumes m: "main a ar sd w = (r, w')"
  shows "(\<exists>e. r = Some e \<and> calls w' = calls w)
       \<or> (\<exists>w3. calls w3 = calls w
             \<and> cwd w3 = path_join (abspath w sd) ''bin''
             \<and> nodes w3 (path_join (abspath w sd) ''bin'') = Some Dir
             \<and> ((nodes w (path_join (abspath w sd) ''bin'') = Some Dir \<and> nodes w3 = nodes w)
                \<or> (nodes w (path_join (abspath w sd) ''bin'') = None
                    \<and> nodes w3 = (nodes w)(path_join (abspath w sd) ''bin'' \<mapsto> Dir)))
             \<and> combinate a ar w3 = (r, w'))"
proof -
  let ?b = "path_join (abspath w sd) ''bin''"
  obtain r1 w1 where c1: "chdir sd w = (r1, w1)" by (rule prod.exhaust)
  obtain r2 w2 where c2: "makedirs ''bin'' True w1 = (r2, w2)" by (rule prod.exhaust)
  obtain r3 w3 where c3: "chdir ''bin'' w2 = (r3, w3)" by (rule prod.exhaust)
  show ?thesis
  proof (cases r1)
    case (Some e)
    then have w1: "w1 = w" using chdir_cases [OF c1] by simp
    have "main a ar sd w = (Some e, w1)"
      using c1 Some by (simp add: main_def)
    then have "r = Some e" and "w' = w1" using m by simp_all
    then have "r = Some e \<and> calls w' = calls w"
      by (simp add: w1)
    then show ?thesis by (intro disjI1 exI)
  next
    case r1: None
    then have w1: "w1 = w\<lparr>cwd := abspath w sd\<rparr>" using chdir_cases [OF c1] by simp
    have b1: "abspath w1 ''bin'' = ?b" by (simp add: abspath_bin w1)
    show ?thesis
    proof (cases r2)
      case (Some e)
      then have w2: "w2 = w1" using makedirs_cases [OF c2] by simp
      have "main a ar sd w = (Some e, w2)"
        using c1 c2 r1 Some by (simp add: main_def)
      then have "r = Some e" and "w' = w2" using m by simp_all
      then have "r = Some e \<and> calls w' = calls w"
        by (simp add: w2 w1)
      then show ?thesis by (intro disjI1 exI)
    next
      case r2: None
      have n2: "(nodes w ?b = Some Dir \<and> w2 = w1)
          \<or> (nodes w ?b = None \<and> w2 = w1\<lparr>nodes := (nodes w1)(?b \<mapsto> Dir)\<rparr>)"
        using makedirs_cases [OF c2] r2 unfolding b1 by (simp add: w1)
      then have cw2: "cwd w2 = abspath w sd" and cl2: "calls w2 = calls w"
        by (auto simp: w1)
      have b2: "abspath w2 ''bin'' = ?b" by (simp add: abspath_bin cw2)
      show ?thesis
      proof (cases r3)
        case (Some e)
        then have w3: "w3 = w2" using chdir_cases [OF c3] by simp
        have "main a ar sd w = (Some e, w3)"
          using c1 c2 c3 r1 r2 Some by (simp add: main_def)
        then have "r = Some e" and "w' = w3" using m by simp_all
        then have "r = Some e \<and> calls w' = calls w"
          by (simp add: w3 cl2)
        then show ?thesis by (intro disjI1 exI)
      next
        case r3: None
        then have w3: "w3 = w2\<lparr>cwd := ?b\<rparr>" and d3: "nodes w2 ?b = Some Dir"
          using chdir_cases [OF c3] unfolding b2 by simp_all
        have "main a ar sd w = combinate a ar w3"
          using c1 c2 c3 r1 r2 r3 by (simp add: main_def)
        then have "combinate a ar w3 = (r, w')"
          using m by simp
        moreover have "calls w3 = calls w" by (simp add: w3 cl2)
        moreover have "cwd w3 = ?b" by (simp add: w3)
        moreover have "nodes w3 ?b = Some Dir" using d3 by (simp add: w3)
        moreover have "(nodes w ?b = Some Dir \<and> nodes w3 = nodes w)
            \<or> (nodes w ?b = None \<and> nodes w3 = (nodes w)(?b \<mapsto> Dir))"
          using n2 by (auto simp: w3 w1)
        ultimately have "calls w3 = calls w
             \<and> cwd w3 = ?b
             \<and> nodes w3 ?b = Some Dir
             \<and> ((nodes w ?b = Some Dir \<and> nodes w3 = nodes w)
                \<or> (nodes w ?b = None \<and> nodes w3 = (nodes w)(?b \<mapsto> Dir)))
             \<and> combinate a ar w3 = (r, w')"
          by - (intro conjI, assumption+)
        then show ?thesis by (intro disjI2 exI)
      qed
    qed
  qed
qed

lemma for_combo_frame:
  "cwd (snd (snd (for_combo a ar fmt it w))) = cwd w
   \<and> nodes (snd (snd (for_combo a ar fmt it w))) = nodes w
   \<and> denied (snd (snd (for_combo a ar fmt it w))) = denied w"
proof -
  obtain k where "snd (snd (for_combo a ar fmt it w)) =
       w\<lparr>calls := calls w @ map (\<lambda>combo. (cwd w, job_argv a fmt combo)) (take k it)\<rparr>"
    using for_combo_world [of it a ar fmt w] by (elim exE conjE)
  then show ?thesis by simp
qed

lemma for_format_frame:
  "cwd (snd (snd (for_format a ar fmts it w))) = cwd w
   \<and> nodes (snd (snd (for_format a ar fmts it w))) = nodes w
   \<and> denied (snd (snd (for_format a ar fmts it w))) = denied w"
proof (induction fmts arbitrary: it w)
  case Nil
  show ?case by simp
next
  case (Cons fmt fmts)
  show ?case
    unfolding for_format_first_only by (rule for_combo_frame)
qed

lemma job_frame:
  "cwd (snd (job a ar fmt combo w)) = cwd w
   \<and> nodes (snd (job a ar fmt combo w)) = nodes w
   \<and> denied (snd (job a ar fmt combo w)) = denied w"
  by (simp add: job_eq)

lemma length_powerset_flags: "length (powerset (map flag_value Flags_members)) = 16"
  by (simp add: powerset_flags)

lemma combinate_world:
  "\<exists>k. k \<le> 16 \<and> snd (combinate a ar w) =
     w\<lparr>calls := calls w @ map (\<lambda>combo. (cwd w, job_argv a ''tes4'' combo))
        (take k (powerset (map flag_value Flags_members)))\<rparr>"
proof -
  let ?ps = "powerset (map flag_value Flags_members)"
  obtain k where k1: "k \<le> length ?ps" and k2: "snd (snd (for_combo a ar ''tes4'' ?ps w)) =
       w\<lparr>calls := calls w @ map (\<lambda>combo. (cwd w, job_argv a ''tes4'' combo)) (take k ?ps)\<rparr>"
    using for_combo_world [of ?ps a ar "''tes4''" w] by (elim exE conjE)
  have "k \<le> 16" using k1 unfolding length_powerset_flags .
  moreover have "snd (combinate a ar w) =
     w\<lparr>calls := calls w @ map (\<lambda>combo. (cwd w, job_argv a ''tes4'' combo)) (take k ?ps)\<rparr>"
    unfolding combinate_eq using k2 by simp
  ultimately show ?thesis by (intro exI conjI)
qed

lemma for_combo_all_passed:
  "for_combo a (\<lambda>k d v. Exited 0) fmt it w =
     (None, [], w\<lparr>calls := calls w @ map (\<lambda>combo. (cwd w, job_argv a fmt combo)) it\<rparr>)"
proof (induction it arbitrary: w)
  case Nil
  show ?case by simp
next
  case (Cons combo it)
  have "raised ((\<lambda>k d v. Exited 0) (length (calls w)) (cwd w) (job_argv a fmt combo)) = None"
    by (simp add: raised_def)
  then have "for_combo a (\<lambda>k d v. Exited 0) fmt (combo # it) w =
      for_combo a (\<lambda>k d v. Exited 0) fmt it
        (w\<lparr>calls := calls w @ [(cwd w, job_argv a fmt combo)]\<rparr>)"
    by (rule for_combo_Cons_passed)
  then show ?case unfolding Cons.IH by simp
qed

lemma main_calls:
  "\<exists>k. k \<le> 16 \<and> calls (snd (main a ar sd (start d fs dn))) =
     map (\<lambda>combo. (path_join (abspath (start d fs dn) sd) ''bin'', job_argv a ''tes4'' combo))
       (take k (powerset (map flag_value Flags_members)))"
proof -
  let ?w = "start d fs dn"
  let ?ps = "powerset (map flag_value Flags_members)"
  let ?b = "path_join (abspath ?w sd) ''bin''"
  have c0: "calls ?w = []" by (simp add: start_def)
  obtain r w' where m: "main a ar sd ?w = (r, w')" by (rule prod.exhaust)
  consider (failed) "calls w' = calls ?w"
    | (started) w3 where "calls w3 = calls ?w" "cwd w3 = ?b" "combinate a ar w3 = (r, w')"
    using main_cases [OF m] by (elim disjE exE conjE)
  then show ?thesis
  proof cases
    case failed
    then have "calls (snd (main a ar sd ?w)) = map (\<lambda>combo. (?b, job_argv a ''tes4'' combo)) (take 0 ?ps)"
      using m c0 by simp
    then show ?thesis by (intro exI [of _ 0] conjI) simp_all
  next
    case started
    obtain k where k1: "k \<le> 16" and k2: "snd (combinate a ar w3) =
       w3\<lparr>calls := calls w3 @ map (\<lambda>combo. (cwd w3, job_argv a ''tes4'' combo)) (take k ?ps)\<rparr>"
      using combinate_world [of a ar w3] by (elim exE conjE)
    have "calls (snd (main a ar sd ?w)) = map (\<lambda>combo. (?b, job_argv a ''tes4'' combo)) (take k ?ps)"
      using k2 started m c0 by simp
    then show ?thesis using k1 by (intro exI conjI)
  qed
qed


section \<open>Properties of the invocations\<close>

lemma list_all_map_take:
  assumes "list_all (\<lambda>x. P (f x)) xs"
  shows "list_all P (map f (take k xs))"
proof -
  have "set (take k xs) \<subseteq> set xs" by (rule set_take_subset)
  then show ?thesis using assms unfolding list_all_iff by auto
qed

lemma replicate_16: "replicate 16 x = [x, x, x, x, x, x, x, x, x, x, x, x, x, x, x, x]"
  by (simp add: eval_nat_numeral)

text \<open>
  Claim C1, as the code behaves. With an archiver that always succeeds, \<open>combinate\<close>
  makes 16 invocations, not 48, and every one of them selects the format tes4: the
  iterator over the combinations is made once, the pass for tes4 exhausts it, and the
  passes for tes5 and sse find it empty. Whatever the archiver does, no run makes more
  than 16 invocations.
\<close>

theorem combinate_runs_first_format_only:
  "fst (combinate a (\<lambda>k d v. Exited 0) w) = None
   \<and> length (calls (snd (combinate a (\<lambda>k d v. Exited 0) w))) = length (calls w) + 16
   \<and> map (\<lambda>c. snd c ! 4) (drop (length (calls w)) (calls (snd (combinate a (\<lambda>k d v. Exited 0) w))))
       = replicate 16 ''-tes4''
   \<and> length (calls (snd (combinate a ar w))) \<le> length (calls w) + 16"
proof -
  let ?ps = "powerset (map flag_value Flags_members)"
  let ?ok = "\<lambda>(k::nat) (d::string) (v::string list). Exited 0"
  have c: "combinate a ?ok w =
      (None, w\<lparr>calls := calls w @ map (\<lambda>combo. (cwd w, job_argv a ''tes4'' combo)) ?ps\<rparr>)"
    unfolding combinate_eq for_combo_all_passed by simp
  have "map (\<lambda>c. snd c ! 4) (map (\<lambda>combo. (cwd w, job_argv a ''tes4'' combo)) ?ps)
      = replicate 16 ''-tes4''"
    unfolding powerset_flags by (simp add: job_argv_def format_selector_def replicate_16)
  then have 3: "map (\<lambda>c. snd c ! 4) (drop (length (calls w)) (calls (snd (combinate a ?ok w))))
       = replicate 16 ''-tes4''"
    unfolding c by simp
  obtain k where k1: "k \<le> 16" and k2: "snd (combinate a ar w) =
     w\<lparr>calls := calls w @ map (\<lambda>combo. (cwd w, job_argv a ''tes4'' combo)) (take k ?ps)\<rparr>"
    using combinate_world [of a ar w] by (elim exE conjE)
  have 4: "length (calls (snd (combinate a ar w))) \<le> length (calls w) + 16"
    unfolding k2 using k1 by (simp add: length_powerset_flags)
  have 1: "fst (combinate a ?ok w) = None" unfolding c by simp
  have 2: "length (calls (snd (combinate a ?ok w))) = length (calls w) + 16"
    unfolding c by (simp add: length_powerset_flags)
  show ?thesis using 1 2 3 4 by (intro conjI)
qed

lemma job_entry:
  "\<exists>af. accumulated_flags combo = Inr af
     \<and> (b, job_argv a fmt combo) =
         (b, [bsarch a, ''pack'', directory a, fmt @ ''_'' @ format_X af @ ''.bsa'',
              ''-'' @ fmt, ''-af:0x'' @ format_X af])"
  by (simp add: accumulated_flags_eq job_argv_def output_name_def format_selector_def
      af_selector_def)

lemma job_logs_one_call:
  "\<exists>af. accumulated_flags combo = Inr af
     \<and> calls (snd (job a ar fmt combo w)) =
         calls w @ [(cwd w, [bsarch a, ''pack'', directory a, fmt @ ''_'' @ format_X af @ ''.bsa'',
              ''-'' @ fmt, ''-af:0x'' @ format_X af])]"
  by (simp add: job_eq accumulated_flags_eq job_argv_def output_name_def format_selector_def
      af_selector_def)

lemma combinate_all_passed:
  "combinate a (\<lambda>k d v. Exited 0) w =
     (None, w\<lparr>calls := calls w @ map (\<lambda>combo. (cwd w, job_argv a ''tes4'' combo))
        (powerset (map flag_value Flags_members))\<rparr>)"
  unfolding combinate_eq for_combo_all_passed by simp

lemma job_argv_tes4_table:
  "map (\<lambda>combo. (c, job_argv a ''tes4'' combo)) (powerset (map flag_value Flags_members)) =
     [(c, [bsarch a, ''pack'', directory a, ''tes4_0.bsa'', ''-tes4'', ''-af:0x0'']),
      (c, [bsarch a, ''pack'', directory a, ''tes4_1.bsa'', ''-tes4'', ''-af:0x1'']),
      (c, [bsarch a, ''pack'', directory a, ''tes4_2.bsa'', ''-tes4'', ''-af:0x2'']),
      (c, [bsarch a, ''pack'', directory a, ''tes4_4.bsa'', ''-tes4'', ''-af:0x4'']),
      (c, [bsarch a, ''pack'', directory a, ''tes4_100.bsa'', ''-tes4'', ''-af:0x100'']),
      (c, [bsarch a, ''pack'', directory a, ''tes4_3.bsa'', ''-tes4'', ''-af:0x3'']),
      (c, [bsarch a, ''pack'', directory a, ''tes4_5.bsa'', ''-tes4'', ''-af:0x5'']),
      (c, [bsarch a, ''pack'', directory a, ''tes4_101.bsa'', ''-tes4'', ''-af:0x101'']),
      (c, [bsarch a, ''pack'', directory a, ''tes4_6.bsa'', ''-tes4'', ''-af:0x6'']),
      (c, [bsarch a, ''pack'', directory a, ''tes4_102.bsa'', ''-tes4'', ''-af:0x102'']),
      (c, [bsarch a, ''pack'', directory a, ''tes4_104.bsa'', ''-tes4'', ''-af:0x104'']),
      (c, [bsarch a, ''pack'', directory a, ''tes4_7.bsa'', ''-tes4'', ''-af:0x7'']),
      (c, [bsarch a, ''pack'', directory a, ''tes4_103.bsa'', ''-tes4'', ''-af:0x103'']),
      (c, [bsarch a, ''pack'', directory a, ''tes4_105.bsa'', ''-tes4'', ''-af:0x105'']),
      (c, [bsarch a, ''pack'', directory a, ''tes4_106.bsa'', ''-tes4'', ''-af:0x106'']),
      (c, [bsarch a, ''pack'', directory a, ''tes4_107.bsa'', ''-tes4'', ''-af:0x107''])]"
  unfolding powerset_flags
  by (simp add: job_argv_def output_name_def format_selector_def af_selector_def
      format_X_def hex_nat.simps hex_digit_def)

lemma startup_example:
  "main a ar ''/t'' (start ''/'' [''/t'' \<mapsto> Dir] {}) =
     combinate a ar \<lparr>cwd = ''/t/bin'', nodes = [''/t'' \<mapsto> Dir, ''/t/bin'' \<mapsto> Dir],
        denied = {}, calls = []\<rparr>"
  by (simp add: main_def start_def chdir_def makedirs_def mkdir_def isdir_def abspath_def
      path_join_def Let_def)

lemma third_call_fails_example:
  "combinate \<lparr>bsarch = ''bsarch'', directory = ''data''\<rparr>
       (\<lambda>k d v. if k = 2 then Exited 1 else Exited 0)
       \<lparr>cwd = ''/t/bin'', nodes = [''/t'' \<mapsto> Dir, ''/t/bin'' \<mapsto> Dir], denied = {}, calls = []\<rparr> =
     (Some (CalledProcessError 1),
      \<lparr>cwd = ''/t/bin'', nodes = [''/t'' \<mapsto> Dir, ''/t/bin'' \<mapsto> Dir], denied = {},
        calls = [(''/t/bin'', [''bsarch'', ''pack'', ''data'', ''tes4_0.bsa'', ''-tes4'', ''-af:0x0'']),
                 (''/t/bin'', [''bsarch'', ''pack'', ''data'', ''tes4_1.bsa'', ''-tes4'', ''-af:0x1'']),
                 (''/t/bin'', [''bsarch'', ''pack'', ''data'', ''tes4_2.bsa'', ''-tes4'', ''-af:0x2''])]\<rparr>)"
  unfolding combinate_eq powerset_flags
  by (simp add: for_combo_Cons_passed for_combo_Cons_raised raised_def job_argv_def
      output_name_def format_selector_def af_selector_def format_X_def hex_nat.simps hex_digit_def
      del: for_combo.simps)

lemma list_all2_map_same:
  assumes "\<And>x. R (f x) x"
  shows "list_all2 R (map f xs) xs"
  using assms by (induction xs) simp_all

text \<open>
  Claim C5. Every invocation passes exactly six arguments, in this order: the archiver
  path, the word pack, the source directory, the output name (the format, an underscore,
  the accumulated flags of the combination in hexadecimal, \<^verbatim>\<open>.bsa\<close>), the format
  selector (a dash and the format) and \<^verbatim>\<open>-af:0x\<close> followed by the same accumulated flags
  in hexadecimal. The loop body appends exactly this one invocation to the log, for its
  own format and the accumulated flags of its own combination. The log of a run of
  \<open>main\<close> is, entry by entry, the invocation of the format tes4 for the first
  combinations of the power set, in order. With an archiver that always succeeds,
  \<open>combinate\<close> makes the sixteen invocations listed.
\<close>

theorem every_invocation_has_six_arguments:
  "(\<exists>af. accumulated_flags combo = Inr af
      \<and> calls (snd (job a ar format combo w)) =
          calls w @ [(cwd w, [bsarch a, ''pack'', directory a,
                              format @ ''_'' @ format_X af @ ''.bsa'',
                              ''-'' @ format,
                              ''-af:0x'' @ format_X af])])
   \<and> (\<exists>k. k \<le> 16
      \<and> list_all2 (\<lambda>c combo. \<exists>af. accumulated_flags combo = Inr af
            \<and> c = (path_join (abspath (start d fs dn) sd) ''bin'',
                   [bsarch a, ''pack'', directory a,
                    ''tes4'' @ ''_'' @ format_X af @ ''.bsa'',
                    ''-'' @ ''tes4'',
                    ''-af:0x'' @ format_X af]))
          (calls (snd (main a ar sd (start d fs dn))))
          (take k (powerset (map flag_value Flags_members))))
   \<and> list_all (\<lambda>c. length (snd c) = 6) (calls (snd (main a ar sd (start d fs dn))))
   \<and> calls (snd (combinate a (\<lambda>k d v. Exited 0) w)) = calls w @
       [(cwd w, [bsarch a, ''pack'', directory a, ''tes4_0.bsa'', ''-tes4'', ''-af:0x0'']),
        (cwd w, [bsarch a, ''pack'', directory a, ''tes4_1.bsa'', ''-tes4'', ''-af:0x1'']),
        (cwd w, [bsarch a, ''pack'', directory a, ''tes4_2.bsa'', ''-tes4'', ''-af:0x2'']),
        (cwd w, [bsarch a, ''pack'', directory a, ''tes4_4.bsa'', ''-tes4'', ''-af:0x4'']),
        (cwd w, [bsarch a, ''pack'', directory a, ''tes4_100.bsa'', ''-tes4'', ''-af:0x100'']),
        (cwd w, [bsarch a, ''pack'', directory a, ''tes4_3.bsa'', ''-tes4'', ''-af:0x3'']),
        (cwd w, [bsarch a, ''pack'', directory a, ''tes4_5.bsa'', ''-tes4'', ''-af:0x5'']),
        (cwd w, [bsarch a, ''pack'', directory a, ''tes4_101.bsa'', ''-tes4'', ''-af:0x101'']),
        (cwd w, [bsarch a, ''pack'', directory a, ''tes4_6.bsa'', ''-tes4'', ''-af:0x6'']),
        (cwd w, [bsarch a, ''pack'', directory a, ''tes4_102.bsa'', ''-tes4'', ''-af:0x102'']),
        (cwd w, [bsarch a, ''pack'', directory a, ''tes4_104.bsa'', ''-tes4'', ''-af:0x104'']),
        (cwd w, [bsarch a, ''pack'', directory a, ''tes4_7.bsa'', ''-tes4'', ''-af:0x7'']),
        (cwd w, [bsarch a, ''pack'', directory a, ''tes4_103.bsa'', ''-tes4'', ''-af:0x103'']),
        (cwd w, [bsarch a, ''pack'', directory a, ''tes4_105.bsa'', ''-tes4'', ''-af:0x105'']),
        (cwd w, [bsarch a, ''pack'', directory a, ''tes4_106.bsa'', ''-tes4'', ''-af:0x106'']),
        (cwd w, [bsarch a, ''pack'', directory a, ''tes4_107.bsa'', ''-tes4'', ''-af:0x107''])]"
proof -
  let ?ps = "powerset (map flag_value Flags_members)"
  let ?b = "path_join (abspath (start d fs dn) sd) ''bin''"
  let ?f = "\<lambda>combo. (?b, job_argv a ''tes4'' combo)"
  let ?R = "\<lambda>(c :: string \<times> string list) combo. \<exists>af. accumulated_flags combo = Inr af
            \<and> c = (?b, [bsarch a, ''pack'', directory a,
                    ''tes4'' @ ''_'' @ format_X af @ ''.bsa'',
                    ''-'' @ ''tes4'',
                    ''-af:0x'' @ format_X af])"
  have 1: "\<exists>af. accumulated_flags combo = Inr af
      \<and> calls (snd (job a ar format combo w)) =
          calls w @ [(cwd w, [bsarch a, ''pack'', directory a,
                              format @ ''_'' @ format_X af @ ''.bsa'',
                              ''-'' @ format,
                              ''-af:0x'' @ format_X af])]"
    by (rule job_logs_one_call)
  obtain k where k1: "k \<le> 16" and k2: "calls (snd (main a ar sd (start d fs dn))) = map ?f (take k ?ps)"
    using main_calls [of a ar sd d fs dn] by (elim exE conjE)
  have r: "?R (?f x) x" for x
    by (rule job_entry [of x ?b a "''tes4''"])
  have "list_all2 ?R (map ?f (take k ?ps)) (take k ?ps)"
    by (rule list_all2_map_same [where R = ?R and f = ?f, OF r])
  then have "list_all2 ?R (calls (snd (main a ar sd (start d fs dn)))) (take k ?ps)"
    unfolding k2 .
  with k1 have 2: "\<exists>k. k \<le> 16
      \<and> list_all2 ?R (calls (snd (main a ar sd (start d fs dn)))) (take k ?ps)"
    by (intro exI [of _ k] conjI)
  have 3: "list_all (\<lambda>c. length (snd c) = 6) (calls (snd (main a ar sd (start d fs dn))))"
    unfolding k2 by (simp add: list_all_iff job_argv_def)
  have 4: "calls (snd (combinate a (\<lambda>k d v. Exited 0) w)) = calls w @
     map (\<lambda>combo. (cwd w, job_argv a ''tes4'' combo)) ?ps"
    unfolding combinate_all_passed by simp
  show ?thesis
    using 1 2 3 4 unfolding job_argv_tes4_table by (intro conjI)
qed

text \<open>
  The theorem at a run in which the third invocation exits with status 1: the log holds
  the three invocations made, each of six arguments.
\<close>

theorem every_invocation_has_six_arguments_witness:
  "calls (snd (main \<lparr>bsarch = ''bsarch'', directory = ''data''\<rparr>
        (\<lambda>k d v. if k = 2 then Exited 1 else Exited 0) ''/t''
        (start ''/'' [''/t'' \<mapsto> Dir] {}))) =
     [(''/t/bin'', [''bsarch'', ''pack'', ''data'', ''tes4_0.bsa'', ''-tes4'', ''-af:0x0'']),
      (''/t/bin'', [''bsarch'', ''pack'', ''data'', ''tes4_1.bsa'', ''-tes4'', ''-af:0x1'']),
      (''/t/bin'', [''bsarch'', ''pack'', ''data'', ''tes4_2.bsa'', ''-tes4'', ''-af:0x2''])]
   \<and> list_all (\<lambda>c. length (snd c) = 6)
       (calls (snd (main \<lparr>bsarch = ''bsarch'', directory = ''data''\<rparr>
        (\<lambda>k d v. if k = 2 then Exited 1 else Exited 0) ''/t''
        (start ''/'' [''/t'' \<mapsto> Dir] {}))))"
proof -
  let ?run = "main \<lparr>bsarch = ''bsarch'', directory = ''data''\<rparr>
        (\<lambda>k d v. if k = 2 then Exited 1 else Exited 0) ''/t''
        (start ''/'' [''/t'' \<mapsto> Dir] {})"
  have "list_all (\<lambda>c. length (snd c) = 6) (calls (snd ?run))"
    using every_invocation_has_six_arguments [of "[]" "\<lparr>bsarch = ''bsarch'', directory = ''data''\<rparr>"
        "\<lambda>k d v. if k = 2 then Exited 1 else Exited 0" "''tes4''"
        "start ''/'' [''/t'' \<mapsto> Dir] {}" "''/''" "[''/t'' \<mapsto> Dir]" "{}" "''/t''"]
    by (elim conjE)
  moreover have "calls (snd ?run) =
     [(''/t/bin'', [''bsarch'', ''pack'', ''data'', ''tes4_0.bsa'', ''-tes4'', ''-af:0x0'']),
      (''/t/bin'', [''bsarch'', ''pack'', ''data'', ''tes4_1.bsa'', ''-tes4'', ''-af:0x1'']),
      (''/t/bin'', [''bsarch'', ''pack'', ''data'', ''tes4_2.bsa'', ''-tes4'', ''-af:0x2''])]"
    unfolding startup_example third_call_fails_example by simp
  ultimately show ?thesis by (intro conjI)
qed

lemma combinations_subset: "ys \<in> set (combinations xs r) \<Longrightarrow> set ys \<subseteq> set xs"
proof (induction xs r arbitrary: ys rule: combinations.induct)
  case (1 xs)
  then show ?case by simp
next
  case (2 r)
  then show ?case by simp
next
  case (3 x xs r)
  from "3.prems" consider zs where "ys = x # zs" "zs \<in> set (combinations xs r)"
    | "ys \<in> set (combinations xs (Suc r))" by auto
  then show ?case
  proof cases
    case 1
    then show ?thesis using "3.IH"(1) [of zs] by auto
  next
    case 2
    then show ?thesis using "3.IH"(2) [of ys] by auto
  qed
qed

lemma powerset_subset:
  assumes "ys \<in> set (powerset xs)"
  shows "set ys \<subseteq> set xs"
proof -
  obtain r where "ys \<in> set (combinations xs r)"
    using assms by (auto simp: powerset_def)
  then show ?thesis by (rule combinations_subset)
qed

lemma bit_push_bit_1: "bit (push_bit k (1::int)) n = (n = k)"
  by (simp add: bit_exp_iff eq_commute)

lemma bit_flag_value:
  "bit (flag_value f) n = (n = (case f of directory_strings \<Rightarrow> 0 | file_strings \<Rightarrow> 1
      | compressed \<Rightarrow> 2 | embedded_file_names \<Rightarrow> 8))"
  by (cases f) (simp_all only: flag_value.simps bit_push_bit_1 Flags.case)

lemma bits_of_combination:
  assumes "combo \<in> set (powerset (map flag_value Flags_members))"
  shows "{n. bit (foldl (OR) 0 combo) n} \<subseteq> {0, 1, 2, 8}"
proof
  fix n assume "n \<in> {n. bit (foldl (OR) 0 combo) n}"
  then have "bit (foldl (OR) (0::int) combo) n" by simp
  then obtain x where x: "x \<in> set combo" and b: "bit x n"
    unfolding bit_foldl_or by auto
  have "set combo \<subseteq> set (map flag_value Flags_members)"
    using assms by (rule powerset_subset)
  then obtain f where "x = flag_value f" using x by auto
  then have "n = (case f of directory_strings \<Rightarrow> 0 | file_strings \<Rightarrow> 1
      | compressed \<Rightarrow> 2 | embedded_file_names \<Rightarrow> 8)"
    using b by (simp only: bit_flag_value)
  then show "n \<in> {0, 1, 2, 8}" by (cases f) simp_all
qed

lemma submask_table:
  "list_all (\<lambda>combo. foldl (OR) 0 combo OR 0x107 = (0x107::int) \<and> 0 \<le> foldl (OR) (0::int) combo)
     (powerset (map flag_value Flags_members))"
  unfolding powerset_flags by simp

lemma submask_of_combination:
  assumes "combo \<in> set (powerset (map flag_value Flags_members))"
  shows "foldl (OR) 0 combo OR 0x107 = (0x107::int)" and "0 \<le> foldl (OR) (0::int) combo"
  using submask_table assms unfolding list_all_iff by auto

text \<open>
  Claim C10. The accumulated flag value of every combination of the power set, and so
  the value passed in the \<^verbatim>\<open>-af\<close> argument of every invocation of a run, is a submask
  of 0x107: its OR with 0x107 is 0x107, it is not negative, and only the bits 0, 1, 2
  and 8 (the values 0x1, 0x2, 0x4 and 0x100) can be set in it.
\<close>

theorem accumulated_flags_submask:
  "list_all (\<lambda>combo. \<exists>af. accumulated_flags combo = Inr af
        \<and> af OR 0x107 = 0x107 \<and> 0 \<le> af \<and> {n. bit af n} \<subseteq> {0, 1, 2, 8})
      (powerset (map flag_value Flags_members))
   \<and> list_all (\<lambda>c. \<exists>af. snd c ! 5 = ''-af:0x'' @ format_X af
        \<and> af OR 0x107 = 0x107 \<and> 0 \<le> af \<and> {n. bit af n} \<subseteq> {0, 1, 2, 8})
      (calls (snd (main a ar sd (start d fs dn))))"
proof -
  let ?ps = "powerset (map flag_value Flags_members)"
  let ?b = "path_join (abspath (start d fs dn) sd) ''bin''"
  let ?Q = "\<lambda>af :: int. af OR 0x107 = 0x107 \<and> 0 \<le> af \<and> {n. bit af n} \<subseteq> {0, 1, 2, 8}"
  let ?P = "\<lambda>c :: string \<times> string list. \<exists>af. snd c ! 5 = ''-af:0x'' @ format_X af \<and> ?Q af"
  have q: "?Q (foldl (OR) 0 combo)" if "combo \<in> set ?ps" for combo
    using submask_of_combination [OF that] bits_of_combination [OF that] by (intro conjI)
  have 1: "list_all (\<lambda>combo. \<exists>af. accumulated_flags combo = Inr af \<and> ?Q af) ?ps"
    unfolding list_all_iff
  proof (rule ballI)
    fix combo assume "combo \<in> set ?ps"
    then have "?Q (foldl (OR) 0 combo)" by (rule q)
    with accumulated_flags_eq [of combo]
    have "accumulated_flags combo = Inr (foldl (OR) 0 combo) \<and> ?Q (foldl (OR) 0 combo)"
      by (rule conjI)
    then show "\<exists>af. accumulated_flags combo = Inr af \<and> ?Q af"
      by (rule exI [of _ "foldl (OR) 0 combo"])
  qed
  obtain k where k: "calls (snd (main a ar sd (start d fs dn))) =
     map (\<lambda>combo. (?b, job_argv a ''tes4'' combo)) (take k ?ps)"
    using main_calls [of a ar sd d fs dn] by (elim exE conjE)
  have "list_all (\<lambda>combo. ?P (?b, job_argv a ''tes4'' combo)) ?ps"
    unfolding list_all_iff
  proof (rule ballI)
    fix combo assume "combo \<in> set ?ps"
    then have qc: "?Q (foldl (OR) 0 combo)" by (rule q)
    have "snd (?b, job_argv a ''tes4'' combo) ! 5 = ''-af:0x'' @ format_X (foldl (OR) 0 combo)"
      by (simp add: job_argv_def af_selector_def)
    from this qc
    have "snd (?b, job_argv a ''tes4'' combo) ! 5 = ''-af:0x'' @ format_X (foldl (OR) 0 combo)
        \<and> ?Q (foldl (OR) 0 combo)"
      by (rule conjI)
    then show "?P (?b, job_argv a ''tes4'' combo)"
      by (rule exI [of _ "foldl (OR) 0 combo"])
  qed
  then have "list_all ?P (map (\<lambda>combo. (?b, job_argv a ''tes4'' combo)) (take k ?ps))"
    by (rule list_all_map_take [where P = ?P and f = "\<lambda>combo. (?b, job_argv a ''tes4'' combo)"])
  then have 2: "list_all ?P (calls (snd (main a ar sd (start d fs dn))))"
    unfolding k .
  show ?thesis using 1 2 by (intro conjI)
qed

lemma list_all_const_map: "list_all (\<lambda>c. fst c = x) (map (\<lambda>y. (x, g y)) ys)"
  by (simp add: list_all_iff)

text \<open>
  Claim C8. No step of the invocation loop changes the working directory: the loop body,
  the inner loop, the outer loop and \<open>combinate\<close> as a whole leave it as they found it,
  and every invocation \<open>combinate\<close> makes runs in that directory. In a run of \<open>main\<close>
  every invocation was started in one and the same directory, the one the run ends in:
  the directory changes before the first invocation only.
\<close>

theorem working_directory_changed_only_at_startup:
  "cwd (snd (job a ar format combo w)) = cwd w
   \<and> cwd (snd (snd (for_combo a ar format it w))) = cwd w
   \<and> cwd (snd (snd (for_format a ar fmts it w))) = cwd w
   \<and> cwd (snd (combinate a ar w)) = cwd w
   \<and> list_all (\<lambda>c. fst c = cwd w) (drop (length (calls w)) (calls (snd (combinate a ar w))))
   \<and> list_all (\<lambda>c. fst c = cwd (snd (main a ar sd (start d fs dn))))
        (calls (snd (main a ar sd (start d fs dn))))"
proof -
  let ?ps = "powerset (map flag_value Flags_members)"
  have 1: "cwd (snd (job a ar format combo w)) = cwd w"
    using job_frame [of a ar format combo w] by (elim conjE)
  have 2: "cwd (snd (snd (for_combo a ar format it w))) = cwd w"
    using for_combo_frame [of a ar format it w] by (elim conjE)
  have 3: "cwd (snd (snd (for_format a ar fmts it w))) = cwd w"
    using for_format_frame [of a ar fmts it w] by (elim conjE)
  have world: "\<exists>k. snd (combinate a ar v) =
      v\<lparr>calls := calls v @ map (\<lambda>combo. (cwd v, job_argv a ''tes4'' combo)) (take k ?ps)\<rparr>" for v
    using combinate_world [of a ar v] by (elim exE conjE) (rule exI)
  obtain k where k: "snd (combinate a ar w) =
      w\<lparr>calls := calls w @ map (\<lambda>combo. (cwd w, job_argv a ''tes4'' combo)) (take k ?ps)\<rparr>"
    using world [of w] by (elim exE)
  have 4: "cwd (snd (combinate a ar w)) = cwd w" unfolding k by simp
  have 5: "list_all (\<lambda>c. fst c = cwd w) (drop (length (calls w)) (calls (snd (combinate a ar w))))"
    unfolding k by (simp add: list_all_const_map)
  obtain r w' where m: "main a ar sd (start d fs dn) = (r, w')" by (rule prod.exhaust)
  have c0: "calls (start d fs dn) = []" by (simp add: start_def)
  consider (failed) "calls w' = calls (start d fs dn)"
    | (started) w3 where "calls w3 = calls (start d fs dn)" "combinate a ar w3 = (r, w')"
    using main_cases [OF m] by (elim disjE exE conjE)
  then have "list_all (\<lambda>c. fst c = cwd w') (calls w')"
  proof cases
    case failed
    then show ?thesis using c0 by simp
  next
    case started
    obtain j where j: "snd (combinate a ar w3) =
        w3\<lparr>calls := calls w3 @ map (\<lambda>combo. (cwd w3, job_argv a ''tes4'' combo)) (take j ?ps)\<rparr>"
      using world [of w3] by (elim exE)
    have "w' = w3\<lparr>calls := map (\<lambda>combo. (cwd w3, job_argv a ''tes4'' combo)) (take j ?ps)\<rparr>"
      using j started c0 by simp
    then show ?thesis by (simp add: list_all_const_map)
  qed
  then have 6: "list_all (\<lambda>c. fst c = cwd (snd (main a ar sd (start d fs dn))))
        (calls (snd (main a ar sd (start d fs dn))))"
    unfolding m by simp
  show ?thesis using 1 2 3 4 5 6 by (intro conjI)
qed

section \<open>Failure of an invocation\<close>

lemma raised_failure:
  assumes "oc \<noteq> Exited 0"
  shows "raised oc = Some (case oc of Exited returncode \<Rightarrow> CalledProcessError returncode
                             | NotStarted e \<Rightarrow> OSError e)"
  using assms by (cases oc) (simp_all add: raised_def)

lemma all_succeeded_Nil: "all_succeeded ar []"
  by (simp add: all_succeeded_def)

lemma all_succeeded_nth:
  assumes "all_succeeded ar cs" and "i < length cs"
  shows "ar i (fst (cs ! i)) (snd (cs ! i)) = Exited 0"
  using assms by (simp add: all_succeeded_def)

lemma main_outcome:
  assumes m: "main a ar sd (start d fs dn) = (r, w)"
  shows "calls w = []
       \<or> (r = None \<and> all_succeeded ar (calls w))
       \<or> (\<exists>cs c. calls w = cs @ [c] \<and> all_succeeded ar cs
             \<and> r = raised (ar (length cs) (fst c) (snd c))
             \<and> ar (length cs) (fst c) (snd c) \<noteq> Exited 0)"
proof -
  let ?ps = "powerset (map flag_value Flags_members)"
  have c0: "calls (start d fs dn) = []" by (simp add: start_def)
  consider (failed) "calls w = calls (start d fs dn)"
    | (started) w3 where "calls w3 = calls (start d fs dn)" "combinate a ar w3 = (r, w)"
    using main_cases [OF m] by (elim disjE exE conjE)
  then show ?thesis
  proof cases
    case failed
    then have "calls w = []" using c0 by simp
    then show ?thesis by (rule disjI1)
  next
    case started
    have s: "all_succeeded ar (calls w3)"
      using started(1) c0 by (simp add: all_succeeded_Nil)
    have r: "r = fst (for_combo a ar ''tes4'' ?ps w3)"
      and w: "w = snd (snd (for_combo a ar ''tes4'' ?ps w3))"
      using started(2) unfolding combinate_eq by simp_all
    have "(r = None \<and> all_succeeded ar (calls w))
       \<or> (\<exists>cs c. calls w = cs @ [c] \<and> all_succeeded ar cs
             \<and> r = raised (ar (length cs) (fst c) (snd c))
             \<and> ar (length cs) (fst c) (snd c) \<noteq> Exited 0)"
      unfolding r w by (rule for_combo_invariant [OF s])
    then show ?thesis by (rule disjI2)
  qed
qed

lemma first_call_not_started_example:
  "combinate \<lparr>bsarch = ''bsarch'', directory = ''data''\<rparr>
     (\<lambda>k d v. NotStarted FileNotFound)
     \<lparr>cwd = ''/t/bin'', nodes = [''/t'' \<mapsto> Dir, ''/t/bin'' \<mapsto> Dir], denied = {}, calls = []\<rparr>
   = (Some (OSError FileNotFound),
      \<lparr>cwd = ''/t/bin'', nodes = [''/t'' \<mapsto> Dir, ''/t/bin'' \<mapsto> Dir], denied = {},
       calls = [(''/t/bin'', [''bsarch'', ''pack'', ''data'', ''tes4_0.bsa'', ''-tes4'', ''-af:0x0''])]\<rparr>)"
  unfolding combinate_eq powerset_flags
  by (simp add: for_combo_Cons_passed for_combo_Cons_raised raised_def job_argv_def
      output_name_def format_selector_def af_selector_def format_X_def hex_nat.simps hex_digit_def
      del: for_combo.simps)

text \<open>
  Claim C6. If an external invocation fails, that is, the archiver exits with a return
  code other than zero or cannot be started at all, the run stops at that invocation: it
  is the last one of the log, so no later job is attempted; the run ends with the
  exception of that invocation (\<^verbatim>\<open>CalledProcessError\<close> with the return code, or the
  \<^verbatim>\<open>OSError\<close> of the failed start), which leaves \<open>main\<close> uncaught, and the exit status
  of the process is 1.
\<close>

theorem failed_invocation_aborts_run:
  assumes m: "main a ar sd (start d fs dn) = (r, w)"
    and i: "i < length (calls w)"
    and f: "ar i (fst (calls w ! i)) (snd (calls w ! i)) \<noteq> Exited 0"
  shows "Suc i = length (calls w)
     \<and> r = Some (case ar i (fst (calls w ! i)) (snd (calls w ! i)) of
                   Exited returncode \<Rightarrow> CalledProcessError returncode
                 | NotStarted e \<Rightarrow> OSError e)
     \<and> exit_status r = 1"
proof -
  consider (none) "calls w = []"
    | (passed) "r = None" "all_succeeded ar (calls w)"
    | (raised) cs c where "calls w = cs @ [c]" "all_succeeded ar cs"
        "r = raised (ar (length cs) (fst c) (snd c))"
    using main_outcome [OF m] by (elim disjE exE conjE)
  then show ?thesis
  proof cases
    case none
    then show ?thesis using i by simp
  next
    case passed
    have "ar i (fst (calls w ! i)) (snd (calls w ! i)) = Exited 0"
      using passed(2) i by (rule all_succeeded_nth)
    then show ?thesis using f by simp
  next
    case raised
    have "\<not> i < length cs"
    proof
      assume l: "i < length cs"
      have "ar i (fst (cs ! i)) (snd (cs ! i)) = Exited 0"
        using raised(2) l by (rule all_succeeded_nth)
      moreover have "calls w ! i = cs ! i"
        using l by (simp add: raised(1) nth_append)
      ultimately show False using f by simp
    qed
    moreover have "i < Suc (length cs)" using i by (simp add: raised(1))
    ultimately have il: "i = length cs" by simp
    have ci: "calls w ! i = c" by (simp add: raised(1) il)
    have 1: "Suc i = length (calls w)" by (simp add: raised(1) il)
    have "r = raised (ar i (fst c) (snd c))"
      using raised(3) unfolding il .
    then have "r = raised (ar i (fst (calls w ! i)) (snd (calls w ! i)))"
      unfolding ci .
    then have 2: "r = Some (case ar i (fst (calls w ! i)) (snd (calls w ! i)) of
                   Exited returncode \<Rightarrow> CalledProcessError returncode
                 | NotStarted e \<Rightarrow> OSError e)"
      using raised_failure [OF f] by simp
    have 3: "exit_status r = 1" unfolding 2 by (simp add: exit_status_def)
    show ?thesis using 1 2 3 by (intro conjI)
  qed
qed

text \<open>
  The theorem at two runs: one in which the third invocation exits with status 1, which
  ends after three invocations, and one in which the archiver cannot be started, which
  ends after the first.
\<close>

theorem failed_invocation_aborts_run_witness:
  "fst (main \<lparr>bsarch = ''bsarch'', directory = ''data''\<rparr>
        (\<lambda>k d v. if k = 2 then Exited 1 else Exited 0) ''/t''
        (start ''/'' [''/t'' \<mapsto> Dir] {})) = Some (CalledProcessError 1)
   \<and> length (calls (snd (main \<lparr>bsarch = ''bsarch'', directory = ''data''\<rparr>
        (\<lambda>k d v. if k = 2 then Exited 1 else Exited 0) ''/t''
        (start ''/'' [''/t'' \<mapsto> Dir] {})))) = 3
   \<and> exit_status (fst (main \<lparr>bsarch = ''bsarch'', directory = ''data''\<rparr>
        (\<lambda>k d v. if k = 2 then Exited 1 else Exited 0) ''/t''
        (start ''/'' [''/t'' \<mapsto> Dir] {}))) = 1
   \<and> fst (main \<lparr>bsarch = ''bsarch'', directory = ''data''\<rparr>
        (\<lambda>k d v. NotStarted FileNotFound) ''/t''
        (start ''/'' [''/t'' \<mapsto> Dir] {})) = Some (OSError FileNotFound)
   \<and> length (calls (snd (main \<lparr>bsarch = ''bsarch'', directory = ''data''\<rparr>
        (\<lambda>k d v. NotStarted FileNotFound) ''/t''
        (start ''/'' [''/t'' \<mapsto> Dir] {})))) = 1
   \<and> exit_status (fst (main \<lparr>bsarch = ''bsarch'', directory = ''data''\<rparr>
        (\<lambda>k d v. NotStarted FileNotFound) ''/t''
        (start ''/'' [''/t'' \<mapsto> Dir] {}))) = 1"
proof -
  let ?a = "\<lparr>bsarch = ''bsarch'', directory = ''data''\<rparr>"
  let ?ar = "\<lambda>(k::nat) (d::string) (v::string list). if k = 2 then Exited 1 else Exited 0"
  let ?nf = "\<lambda>(k::nat) (d::string) (v::string list). NotStarted FileNotFound"
  let ?s = "start ''/'' [''/t'' \<mapsto> Dir] {}"
  let ?run = "main ?a ?ar ''/t'' ?s"
  let ?run' = "main ?a ?nf ''/t'' ?s"
  have c: "calls (snd ?run) =
     [(''/t/bin'', [''bsarch'', ''pack'', ''data'', ''tes4_0.bsa'', ''-tes4'', ''-af:0x0'']),
      (''/t/bin'', [''bsarch'', ''pack'', ''data'', ''tes4_1.bsa'', ''-tes4'', ''-af:0x1'']),
      (''/t/bin'', [''bsarch'', ''pack'', ''data'', ''tes4_2.bsa'', ''-tes4'', ''-af:0x2''])]"
    unfolding startup_example third_call_fails_example by simp
  have m: "?run = (fst ?run, snd ?run)" by simp
  have i: "2 < length (calls (snd ?run))" unfolding c by simp
  have f: "?ar 2 (fst (calls (snd ?run) ! 2)) (snd (calls (snd ?run) ! 2)) \<noteq> Exited 0"
    by simp
  have t: "Suc 2 = length (calls (snd ?run))
     \<and> fst ?run = Some (case ?ar 2 (fst (calls (snd ?run) ! 2)) (snd (calls (snd ?run) ! 2)) of
                   Exited returncode \<Rightarrow> CalledProcessError returncode
                 | NotStarted e \<Rightarrow> OSError e)
     \<and> exit_status (fst ?run) = 1"
    using m i f by (rule failed_invocation_aborts_run)
  have 1: "fst ?run = Some (CalledProcessError 1)" using t by simp
  have 2: "length (calls (snd ?run)) = 3" using t by simp
  have 3: "exit_status (fst ?run) = 1" using t by (elim conjE)
  have c': "calls (snd ?run') =
     [(''/t/bin'', [''bsarch'', ''pack'', ''data'', ''tes4_0.bsa'', ''-tes4'', ''-af:0x0''])]"
    unfolding startup_example first_call_not_started_example by simp
  have m': "?run' = (fst ?run', snd ?run')" by simp
  have i': "0 < length (calls (snd ?run'))" unfolding c' by simp
  have f': "?nf 0 (fst (calls (snd ?run') ! 0)) (snd (calls (snd ?run') ! 0)) \<noteq> Exited 0"
    by simp
  have t': "Suc 0 = length (calls (snd ?run'))
     \<and> fst ?run' = Some (case ?nf 0 (fst (calls (snd ?run') ! 0)) (snd (calls (snd ?run') ! 0)) of
                   Exited returncode \<Rightarrow> CalledProcessError returncode
                 | NotStarted e \<Rightarrow> OSError e)
     \<and> exit_status (fst ?run') = 1"
    using m' i' f' by (rule failed_invocation_aborts_run)
  have 4: "fst ?run' = Some (OSError FileNotFound)" using t' by simp
  have 5: "length (calls (snd ?run')) = 1" using t' by simp
  have 6: "exit_status (fst ?run') = 1" using t' by (elim conjE)
  show ?thesis using 1 2 3 4 5 6 by (intro conjI)
qed


section \<open>The output directory\<close>

lemma main_startup:
  assumes "nodes w (abspath w sd) = Some Dir"
    and "abspath w sd \<notin> denied w"
    and "nodes w (path_join (abspath w sd) ''bin'') \<noteq> Some File"
    and "path_join (abspath w sd) ''bin'' \<notin> denied w"
  shows "main a ar sd w =
     combinate a ar (w\<lparr>nodes := (nodes w)(path_join (abspath w sd) ''bin'' \<mapsto> Dir),
        cwd := path_join (abspath w sd) ''bin''\<rparr>)"
proof -
  let ?q = "abspath w sd"
  let ?b = "path_join ?q ''bin''"
  let ?w1 = "w\<lparr>cwd := ?q\<rparr>"
  have c1: "chdir sd w = (None, ?w1)"
    using assms(1,2) by (simp add: chdir_def Let_def)
  have b: "abspath ?w1 ''bin'' = ?b" by (simp add: abspath_bin)
  show ?thesis
  proof (cases "nodes w ?b")
    case None
    let ?w2 = "?w1\<lparr>nodes := (nodes w)(?b \<mapsto> Dir)\<rparr>"
    have c2: "makedirs ''bin'' True ?w1 = (None, ?w2)"
      using None assms(4) by (simp add: makedirs_def mkdir_def Let_def b)
    have b2: "abspath ?w2 ''bin'' = ?b" by (simp add: abspath_bin)
    have c3: "chdir ''bin'' ?w2 = (None, ?w2\<lparr>cwd := ?b\<rparr>)"
      using assms(4) by (simp add: chdir_def Let_def b2)
    show ?thesis by (simp add: main_def c1 c2 c3 Let_def)
  next
    case (Some n)
    then have n: "nodes w ?b = Some Dir" using assms(3) by (cases n) simp_all
    have c2: "makedirs ''bin'' True ?w1 = (None, ?w1)"
      using n by (simp add: makedirs_def mkdir_def isdir_def Let_def b)
    have c3: "chdir ''bin'' ?w1 = (None, ?w1\<lparr>cwd := ?b\<rparr>)"
      using n assms(4) by (simp add: chdir_def Let_def b)
    have "(nodes w)(?b \<mapsto> Dir) = nodes w" using n by (rule map_upd_triv)
    then show ?thesis by (simp add: main_def c1 c2 c3 Let_def)
  qed
qed

lemma main_startup_failed:
  assumes "\<not> (nodes w (abspath w sd) = Some Dir
    \<and> abspath w sd \<notin> denied w
    \<and> nodes w (path_join (abspath w sd) ''bin'') \<noteq> Some File
    \<and> path_join (abspath w sd) ''bin'' \<notin> denied w)"
  shows "fst (main a ar sd w) \<noteq> None \<and> snd (main a ar sd w) = w\<lparr>cwd := cwd (snd (main a ar sd w))\<rparr>"
  using assms
  by (auto simp: main_def chdir_def makedirs_def mkdir_def isdir_def Let_def abspath_bin
      split: option.splits node.splits if_splits)

lemma for_combo_grows:
  "length (calls w) \<le> length (calls (snd (snd (for_combo a ar fmt it w))))"
proof -
  obtain k where "snd (snd (for_combo a ar fmt it w)) =
       w\<lparr>calls := calls w @ map (\<lambda>combo. (cwd w, job_argv a fmt combo)) (take k it)\<rparr>"
    using for_combo_world [of it a ar fmt w] by (elim exE conjE)
  then show ?thesis by simp
qed

lemma for_combo_first_call:
  "length (calls w) < length (calls (snd (snd (for_combo a ar fmt (combo # it) w))))"
proof (cases "raised (ar (length (calls w)) (cwd w) (job_argv a fmt combo))")
  case (Some e)
  have "for_combo a ar fmt (combo # it) w =
      (Some e, it, w\<lparr>calls := calls w @ [(cwd w, job_argv a fmt combo)]\<rparr>)"
    using Some by (rule for_combo_Cons_raised)
  then show ?thesis by simp
next
  case None
  let ?w1 = "w\<lparr>calls := calls w @ [(cwd w, job_argv a fmt combo)]\<rparr>"
  have "length (calls ?w1) \<le> length (calls (snd (snd (for_combo a ar fmt it ?w1))))"
    by (rule for_combo_grows)
  moreover have "for_combo a ar fmt (combo # it) w = for_combo a ar fmt it ?w1"
    using None by (rule for_combo_Cons_passed)
  ultimately show ?thesis by simp
qed

lemma combinate_first_call:
  "length (calls w) < length (calls (snd (combinate a ar w)))"
  unfolding combinate_eq powerset_flags by (simp add: for_combo_first_call del: for_combo.simps)

lemma output_names_plain:
  "list_all (\<lambda>combo. CHR ''/'' \<notin> set (job_argv a ''tes4'' combo ! 3))
     (powerset (map flag_value Flags_members))"
  unfolding powerset_flags
  by (simp add: job_argv_def output_name_def format_X_def hex_nat.simps hex_digit_def)

text \<open>
  Claim C7. Before any invocation the run creates the directory \<^verbatim>\<open>bin\<close> in the directory
  of the script, or reuses it when it is there already, and changes the working
  directory into it. When the directory of the script can be entered and \<^verbatim>\<open>bin\<close> in it
  is not a file and can be entered, the run is \<open>combinate\<close> started with no invocation
  made yet, in the working directory \<^verbatim>\<open>bin\<close>, which exists; the file system is the initial
  one when \<^verbatim>\<open>bin\<close> was there, and the initial one with \<^verbatim>\<open>bin\<close> added otherwise; at least
  one invocation is made, and every invocation is started in \<^verbatim>\<open>bin\<close> with an output
  name that has no directory part, so the archive is written there. In every other case
  the run ends with an exception and no invocation is made.
\<close>

theorem output_directory_entered_before_invocations:
  assumes m: "main a ar sd (start d fs dn) = (r, w)"
  shows "let q = abspath (start d fs dn) sd; b = path_join q ''bin'' in
     if fs q = Some Dir \<and> q \<notin> dn \<and> fs b \<noteq> Some File \<and> b \<notin> dn
     then combinate a ar \<lparr>cwd = b, nodes = fs(b \<mapsto> Dir), denied = dn, calls = []\<rparr> = (r, w)
        \<and> ((fs b = Some Dir \<and> nodes w = fs) \<or> (fs b = None \<and> nodes w = fs(b \<mapsto> Dir)))
        \<and> nodes w b = Some Dir
        \<and> cwd w = b
        \<and> calls w \<noteq> []
        \<and> list_all (\<lambda>c. fst c = b \<and> CHR ''/'' \<notin> set (snd c ! 3)) (calls w)
     else r \<noteq> None \<and> calls w = []"
proof -
  let ?s = "start d fs dn"
  let ?q = "abspath ?s sd"
  let ?b = "path_join ?q ''bin''"
  let ?ps = "powerset (map flag_value Flags_members)"
  let ?w3 = "\<lparr>cwd = ?b, nodes = fs(?b \<mapsto> Dir), denied = dn, calls = []\<rparr>"
  let ?ok = "fs ?q = Some Dir \<and> ?q \<notin> dn \<and> fs ?b \<noteq> Some File \<and> ?b \<notin> dn"
  have ns: "nodes ?s = fs" and ds: "denied ?s = dn" and cs: "calls ?s = []"
    by (simp_all add: start_def)
  have "if ?ok
     then combinate a ar ?w3 = (r, w)
        \<and> ((fs ?b = Some Dir \<and> nodes w = fs) \<or> (fs ?b = None \<and> nodes w = fs(?b \<mapsto> Dir)))
        \<and> nodes w ?b = Some Dir
        \<and> cwd w = ?b
        \<and> calls w \<noteq> []
        \<and> list_all (\<lambda>c. fst c = ?b \<and> CHR ''/'' \<notin> set (snd c ! 3)) (calls w)
     else r \<noteq> None \<and> calls w = []"
  proof (cases ?ok)
    case True
    then have o1: "nodes ?s ?q = Some Dir" and o2: "?q \<notin> denied ?s"
      and o3: "nodes ?s ?b \<noteq> Some File" and o4: "?b \<notin> denied ?s"
      by (simp_all add: ns ds)
    have "main a ar sd ?s = combinate a ar (?s\<lparr>nodes := (nodes ?s)(?b \<mapsto> Dir), cwd := ?b\<rparr>)"
      using o1 o2 o3 o4 by (rule main_startup)
    moreover have "?s\<lparr>nodes := (nodes ?s)(?b \<mapsto> Dir), cwd := ?b\<rparr> = ?w3"
      by (simp add: start_def)
    ultimately have 1: "combinate a ar ?w3 = (r, w)" using m by simp
    obtain k where k: "snd (combinate a ar ?w3) =
        ?w3\<lparr>calls := calls ?w3 @ map (\<lambda>combo. (cwd ?w3, job_argv a ''tes4'' combo)) (take k ?ps)\<rparr>"
      using combinate_world [of a ar ?w3] by (elim exE conjE)
    have w: "w = ?w3\<lparr>calls := map (\<lambda>combo. (?b, job_argv a ''tes4'' combo)) (take k ?ps)\<rparr>"
      using k unfolding 1 by simp
    have n: "nodes w = fs(?b \<mapsto> Dir)" unfolding w by simp
    have "fs ?b = None \<or> fs ?b = Some Dir"
    proof (cases "fs ?b")
      case None
      then show ?thesis by (rule disjI1)
    next
      case (Some x)
      then have "fs ?b = Some Dir" using o3 unfolding ns by (cases x) simp_all
      then show ?thesis by (rule disjI2)
    qed
    then have 2: "(fs ?b = Some Dir \<and> nodes w = fs) \<or> (fs ?b = None \<and> nodes w = fs(?b \<mapsto> Dir))"
    proof
      assume "fs ?b = None"
      with n have "fs ?b = None \<and> nodes w = fs(?b \<mapsto> Dir)" by (intro conjI)
      then show ?thesis by (rule disjI2)
    next
      assume e: "fs ?b = Some Dir"
      then have "fs(?b \<mapsto> Dir) = fs" by (rule map_upd_triv)
      then have "nodes w = fs" using n by simp
      with e have "fs ?b = Some Dir \<and> nodes w = fs" by (intro conjI)
      then show ?thesis by (rule disjI1)
    qed
    have 3: "nodes w ?b = Some Dir" unfolding n by simp
    have 4: "cwd w = ?b" unfolding w by simp
    have "length (calls ?w3) < length (calls (snd (combinate a ar ?w3)))"
      by (rule combinate_first_call)
    then have 5: "calls w \<noteq> []" unfolding 1 by auto
    have "list_all (\<lambda>combo. fst (?b, job_argv a ''tes4'' combo) = ?b
         \<and> CHR ''/'' \<notin> set (snd (?b, job_argv a ''tes4'' combo) ! 3)) ?ps"
      using output_names_plain [of a] by simp
    then have "list_all (\<lambda>c. fst c = ?b \<and> CHR ''/'' \<notin> set (snd c ! 3))
        (map (\<lambda>combo. (?b, job_argv a ''tes4'' combo)) (take k ?ps))"
      by (rule list_all_map_take [where P = "\<lambda>c. fst c = ?b \<and> CHR ''/'' \<notin> set (snd c ! 3)"
            and f = "\<lambda>combo. (?b, job_argv a ''tes4'' combo)"])
    then have 6: "list_all (\<lambda>c. fst c = ?b \<and> CHR ''/'' \<notin> set (snd c ! 3)) (calls w)"
      unfolding w by simp
    have "combinate a ar ?w3 = (r, w)
        \<and> ((fs ?b = Some Dir \<and> nodes w = fs) \<or> (fs ?b = None \<and> nodes w = fs(?b \<mapsto> Dir)))
        \<and> nodes w ?b = Some Dir
        \<and> cwd w = ?b
        \<and> calls w \<noteq> []
        \<and> list_all (\<lambda>c. fst c = ?b \<and> CHR ''/'' \<notin> set (snd c ! 3)) (calls w)"
      using 1 2 3 4 5 6 by - (intro conjI, assumption+)
    then show ?thesis using True by simp
  next
    case False
    then have "\<not> (nodes ?s ?q = Some Dir \<and> ?q \<notin> denied ?s
        \<and> nodes ?s ?b \<noteq> Some File \<and> ?b \<notin> denied ?s)"
      unfolding ns ds .
    then have "fst (main a ar sd ?s) \<noteq> None
        \<and> snd (main a ar sd ?s) = ?s\<lparr>cwd := cwd (snd (main a ar sd ?s))\<rparr>"
      by (rule main_startup_failed)
    then have rn: "r \<noteq> None" and e: "w = ?s\<lparr>cwd := cwd w\<rparr>" unfolding m by simp_all
    have "calls w = calls (?s\<lparr>cwd := cwd w\<rparr>)" using e by (rule arg_cong)
    then have "calls w = []" by (simp add: cs)
    with rn have "r \<noteq> None \<and> calls w = []" by (rule conjI)
    then show ?thesis using False by simp
  qed
  then show ?thesis unfolding Let_def .
qed

text \<open>
  The theorem at two runs: one that finds no \<^verbatim>\<open>bin\<close> beside the script, creates and
  enters it and makes its invocations there, and one that finds a file of that name and
  makes no invocation.
\<close>

theorem output_directory_entered_before_invocations_witness:
  "combinate \<lparr>bsarch = ''bsarch'', directory = ''data''\<rparr>
        (\<lambda>k d v. if k = 2 then Exited 1 else Exited 0)
        \<lparr>cwd = ''/t/bin'', nodes = [''/t'' \<mapsto> Dir, ''/t/bin'' \<mapsto> Dir], denied = {}, calls = []\<rparr> =
      main \<lparr>bsarch = ''bsarch'', directory = ''data''\<rparr>
        (\<lambda>k d v. if k = 2 then Exited 1 else Exited 0) ''/t''
        (start ''/'' [''/t'' \<mapsto> Dir] {})
   \<and> nodes (snd (main \<lparr>bsarch = ''bsarch'', directory = ''data''\<rparr>
        (\<lambda>k d v. if k = 2 then Exited 1 else Exited 0) ''/t''
        (start ''/'' [''/t'' \<mapsto> Dir] {}))) = [''/t'' \<mapsto> Dir, ''/t/bin'' \<mapsto> Dir]
   \<and> cwd (snd (main \<lparr>bsarch = ''bsarch'', directory = ''data''\<rparr>
        (\<lambda>k d v. if k = 2 then Exited 1 else Exited 0) ''/t''
        (start ''/'' [''/t'' \<mapsto> Dir] {}))) = ''/t/bin''
   \<and> calls (snd (main \<lparr>bsarch = ''bsarch'', directory = ''data''\<rparr>
        (\<lambda>k d v. if k = 2 then Exited 1 else Exited 0) ''/t''
        (start ''/'' [''/t'' \<mapsto> Dir] {}))) \<noteq> []
   \<and> list_all (\<lambda>c. fst c = ''/t/bin'' \<and> CHR ''/'' \<notin> set (snd c ! 3))
        (calls (snd (main \<lparr>bsarch = ''bsarch'', directory = ''data''\<rparr>
        (\<lambda>k d v. if k = 2 then Exited 1 else Exited 0) ''/t''
        (start ''/'' [''/t'' \<mapsto> Dir] {}))))
   \<and> fst (main \<lparr>bsarch = ''bsarch'', directory = ''data''\<rparr>
        (\<lambda>k d v. Exited 0) ''/t''
        (start ''/'' [''/t'' \<mapsto> Dir, ''/t/bin'' \<mapsto> File] {})) \<noteq> None
   \<and> calls (snd (main \<lparr>bsarch = ''bsarch'', directory = ''data''\<rparr>
        (\<lambda>k d v. Exited 0) ''/t''
        (start ''/'' [''/t'' \<mapsto> Dir, ''/t/bin'' \<mapsto> File] {}))) = []"
proof -
  let ?a = "\<lparr>bsarch = ''bsarch'', directory = ''data''\<rparr>"
  let ?ar = "\<lambda>(k::nat) (d::string) (v::string list). if k = 2 then Exited 1 else Exited (0::int)"
  let ?ok = "\<lambda>(k::nat) (d::string) (v::string list). Exited (0::int)"
  let ?fs = "[''/t'' \<mapsto> Dir] :: string \<rightharpoonup> node"
  let ?fs' = "[''/t'' \<mapsto> Dir, ''/t/bin'' \<mapsto> File] :: string \<rightharpoonup> node"
  let ?run = "main ?a ?ar ''/t'' (start ''/'' ?fs {})"
  let ?run' = "main ?a ?ok ''/t'' (start ''/'' ?fs' {})"
  have q: "abspath (start ''/'' fs {}) ''/t'' = ''/t''" for fs
    by (simp add: abspath_def)
  have b: "path_join ''/t'' ''bin'' = ''/t/bin''"
    by (simp add: path_join_def)
  have m: "?run = (fst ?run, snd ?run)" by simp
  have "let q = abspath (start ''/'' ?fs {}) ''/t''; b = path_join q ''bin'' in
     if ?fs q = Some Dir \<and> q \<notin> {} \<and> ?fs b \<noteq> Some File \<and> b \<notin> {}
     then combinate ?a ?ar \<lparr>cwd = b, nodes = ?fs(b \<mapsto> Dir), denied = {}, calls = []\<rparr>
            = (fst ?run, snd ?run)
        \<and> ((?fs b = Some Dir \<and> nodes (snd ?run) = ?fs)
           \<or> (?fs b = None \<and> nodes (snd ?run) = ?fs(b \<mapsto> Dir)))
        \<and> nodes (snd ?run) b = Some Dir
        \<and> cwd (snd ?run) = b
        \<and> calls (snd ?run) \<noteq> []
        \<and> list_all (\<lambda>c. fst c = b \<and> CHR ''/'' \<notin> set (snd c ! 3)) (calls (snd ?run))
     else fst ?run \<noteq> None \<and> calls (snd ?run) = []"
    using m by (rule output_directory_entered_before_invocations)
  then have t: "combinate ?a ?ar \<lparr>cwd = ''/t/bin'', nodes = ?fs(''/t/bin'' \<mapsto> Dir), denied = {}, calls = []\<rparr>
            = ?run
        \<and> nodes (snd ?run) = ?fs(''/t/bin'' \<mapsto> Dir)
        \<and> cwd (snd ?run) = ''/t/bin''
        \<and> calls (snd ?run) \<noteq> []
        \<and> list_all (\<lambda>c. fst c = ''/t/bin'' \<and> CHR ''/'' \<notin> set (snd c ! 3)) (calls (snd ?run))"
    unfolding Let_def q b by simp
  have m': "?run' = (fst ?run', snd ?run')" by simp
  have "let q = abspath (start ''/'' ?fs' {}) ''/t''; b = path_join q ''bin'' in
     if ?fs' q = Some Dir \<and> q \<notin> {} \<and> ?fs' b \<noteq> Some File \<and> b \<notin> {}
     then combinate ?a ?ok \<lparr>cwd = b, nodes = ?fs'(b \<mapsto> Dir), denied = {}, calls = []\<rparr>
            = (fst ?run', snd ?run')
        \<and> ((?fs' b = Some Dir \<and> nodes (snd ?run') = ?fs')
           \<or> (?fs' b = None \<and> nodes (snd ?run') = ?fs'(b \<mapsto> Dir)))
        \<and> nodes (snd ?run') b = Some Dir
        \<and> cwd (snd ?run') = b
        \<and> calls (snd ?run') \<noteq> []
        \<and> list_all (\<lambda>c. fst c = b \<and> CHR ''/'' \<notin> set (snd c ! 3)) (calls (snd ?run'))
     else fst ?run' \<noteq> None \<and> calls (snd ?run') = []"
    using m' by (rule output_directory_entered_before_invocations)
  then have t': "fst ?run' \<noteq> None \<and> calls (snd ?run') = []"
    unfolding Let_def q b by simp
  show ?thesis using t t' by simp
qed

end
